theory Spec2Isabelle
  imports Complex_Main "HOL-Library.Sublist"
begin

section \<open>Python values used by the attendance checker\<close>

text \<open>
  The embedding follows \<^verbatim>\<open>src/attendance_checker.py\<close>, \<^verbatim>\<open>src/webapp.py\<close> and
  \<^verbatim>\<open>src/config.py\<close>. A Python \<^verbatim>\<open>str\<close> is a \<^typ>\<open>string\<close> whose characters are
  ASCII code points: on those, \<^verbatim>\<open>str.upper\<close>, \<^verbatim>\<open>str.strip\<close>, \<^verbatim>\<open>str.isalnum\<close>,
  \<^verbatim>\<open>str.isdigit\<close>, the regular expression classes and NFKD normalisation are the
  functions below. Characters beyond ASCII are outside what the model describes. A Python
  \<^verbatim>\<open>int\<close> is an \<^typ>\<open>int\<close>, \<^verbatim>\<open>None\<close> is \<^const>\<open>None\<close>, and a raised exception is the
  left injection of a sum.
\<close>

datatype error = BrowserError | AiError | ValueError | ZeroDivisionError | OverflowError

subsection \<open>Character classes\<close>

text \<open>
  A character is read through its code point \<open>of_char c\<close>. \<^verbatim>\<open>str.isspace\<close> on ASCII
  holds of TAB, LF, VT, FF, CR (9 to 13), of the separators 0x1C to 0x1F (28 to 31) and of
  the space (32).
\<close>

definition isspace_chr :: "char \<Rightarrow> bool" where
  "isspace_chr c =
     (let n = (of_char c :: nat) in (9 \<le> n \<and> n \<le> 13) \<or> (28 \<le> n \<and> n \<le> 32))"

definition isdigit_chr :: "char \<Rightarrow> bool" where
  "isdigit_chr c = (let n = (of_char c :: nat) in 48 \<le> n \<and> n \<le> 57)"

definition isupper_chr :: "char \<Rightarrow> bool" where
  "isupper_chr c = (let n = (of_char c :: nat) in 65 \<le> n \<and> n \<le> 90)"

definition islower_chr :: "char \<Rightarrow> bool" where
  "islower_chr c = (let n = (of_char c :: nat) in 97 \<le> n \<and> n \<le> 122)"

definition isalnum_chr :: "char \<Rightarrow> bool" where
  "isalnum_chr c = (isupper_chr c \<or> islower_chr c \<or> isdigit_chr c)"

text \<open>The regular expression class \<^verbatim>\<open>[A-Z0-9]\<close>.\<close>

definition is_AZ09 :: "char \<Rightarrow> bool" where
  "is_AZ09 c = (isupper_chr c \<or> isdigit_chr c)"

text \<open>Unicode general category \<^verbatim>\<open>Cc\<close> on ASCII: the codes below 0x20, and DEL.\<close>

definition is_control_chr :: "char \<Rightarrow> bool" where
  "is_control_chr c = (let n = (of_char c :: nat) in n < 32 \<or> n = 127)"

text \<open>\<^verbatim>\<open>str.upper\<close> on one ASCII character: a lower-case letter moves down by 32.\<close>

definition upper_chr :: "char \<Rightarrow> char" where
  "upper_chr c = (if islower_chr c then char_of ((of_char c :: nat) - 32) else c)"

subsection \<open>String methods\<close>

definition upper :: "string \<Rightarrow> string" where
  "upper s = map upper_chr s"

text \<open>\<^verbatim>\<open>s.strip()\<close> removes white space at both ends; \<^verbatim>\<open>s.strip(chars)\<close> removes the
  characters of \<^verbatim>\<open>chars\<close> there.\<close>

definition strip_with :: "(char \<Rightarrow> bool) \<Rightarrow> string \<Rightarrow> string" where
  "strip_with p s = rev (dropWhile p (rev (dropWhile p s)))"

definition strip :: "string \<Rightarrow> string" where
  "strip s = strip_with isspace_chr s"

definition strip_chars :: "string \<Rightarrow> string \<Rightarrow> string" where
  "strip_chars chars s = strip_with (\<lambda>c. c \<in> set chars) s"

text \<open>\<^verbatim>\<open>s.isalnum()\<close> and \<^verbatim>\<open>s.isdigit()\<close> are false on the empty string.\<close>

definition isalnum :: "string \<Rightarrow> bool" where
  "isalnum s = (s \<noteq> [] \<and> list_all isalnum_chr s)"

definition isdigit :: "string \<Rightarrow> bool" where
  "isdigit s = (s \<noteq> [] \<and> list_all isdigit_chr s)"

text \<open>\<^verbatim>\<open>unicodedata.normalize('NFKD', s)\<close>: ASCII text is its own NFKD form.\<close>

definition nfkd :: "string \<Rightarrow> string" where
  "nfkd s = s"

section \<open>The per-character cleaner and the field typer\<close>

text \<open>\<^verbatim>\<open>JainAttendanceChecker.clean_captcha_character\<close> (lines 112 to 133): an empty
  argument gives the empty string; otherwise the argument is stripped, its control
  characters are removed, it is upper-cased, and it is returned only if alphanumeric.\<close>

definition clean_captcha_character :: "string \<Rightarrow> string" where
  "clean_captcha_character char =
     (if char = [] then []
      else
        let char1 = strip char;
            char2 = filter (\<lambda>c. \<not> is_control_chr c) char1;
            char3 = upper char2
        in if isalnum char3 then char3 else [])"

text \<open>
  The captcha input field of the login page. \<^verbatim>\<open>page.fill(field, "")\<close> empties it,
  \<^verbatim>\<open>page.keyboard.type(text)\<close> sends \<^verbatim>\<open>text\<close> to the focused field, which appends it
  to its value, and \<^verbatim>\<open>page.input_value(field)\<close> reads the value back. The keystrokes
  sent are recorded in \<open>keystrokes\<close>, oldest first.
\<close>

record captcha_field =
  field_value :: string
  keystrokes :: "string list"

definition page_fill :: "string \<Rightarrow> captcha_field \<Rightarrow> captcha_field" where
  "page_fill v f = f\<lparr>field_value := v\<rparr>"

definition keyboard_type :: "string \<Rightarrow> captcha_field \<Rightarrow> captcha_field" where
  "keyboard_type k f = f\<lparr>field_value := field_value f @ k, keystrokes := keystrokes f @ [k]\<rparr>"

text \<open>The loop body of \<^verbatim>\<open>fill_captcha_character_by_character\<close> (lines 566 to 573).\<close>

definition type_character :: "char \<Rightarrow> captcha_field \<Rightarrow> captcha_field" where
  "type_character char f =
     (let cleaned_char = clean_captcha_character [char]
      in if cleaned_char \<noteq> [] then keyboard_type cleaned_char f else f)"

text \<open>\<^verbatim>\<open>JainAttendanceChecker.fill_captcha_character_by_character\<close> (lines 551 to 579):
  the field after the call, and the value read back from it, which the method returns.\<close>

definition fill_captcha_character_by_character ::
    "string \<Rightarrow> captcha_field \<Rightarrow> captcha_field \<times> string" where
  "fill_captcha_character_by_character captcha_text f =
     (let f1 = fold type_character captcha_text (page_fill [] f)
      in (f1, field_value f1))"

section \<open>The captcha text normaliser\<close>

text \<open>
  \<^verbatim>\<open>re.findall(r'[A-Z0-9]{lo,hi}', s)\<close>: the matches from left to right, without
  overlap. At each position the greedy quantifier takes the longest run of the class, up
  to \<open>hi\<close> characters; a run shorter than \<open>lo\<close> does not match and the scan moves one
  character on.
\<close>

definition leading_run :: "nat \<Rightarrow> string \<Rightarrow> string" where
  "leading_run hi s = take hi (takeWhile is_AZ09 s)"

function findall_AZ09 :: "nat \<Rightarrow> nat \<Rightarrow> string \<Rightarrow> string list" where
  "findall_AZ09 lo hi [] = []"
| "findall_AZ09 lo hi (c # cs) =
     (if leading_run hi (c # cs) \<noteq> [] \<and> lo \<le> length (leading_run hi (c # cs))
      then leading_run hi (c # cs)
             # findall_AZ09 lo hi (drop (length (leading_run hi (c # cs))) (c # cs))
      else findall_AZ09 lo hi cs)"
  by pat_completeness auto
termination
  by (relation "measure (\<lambda>(lo, hi, s). length s)") (auto simp: neq_Nil_conv)

text \<open>\<^verbatim>\<open>JainAttendanceChecker.clean_captcha_response\<close> (lines 135 to 206). The list of
  prefixes is the source's, in its order; the loop over it stops at the first prefix the
  text starts with.\<close>

definition unwanted_patterns :: "string list" where
  "unwanted_patterns =
     [''THE TEXT IS:'', ''TEXT:'', ''CAPTCHA:'', ''ANSWER:'', ''RESULT:'',
      ''THE ANSWER IS:'', ''THE CAPTCHA IS:'', ''THE CODE IS:'',
      ''CODE:'', ''IMAGE CONTAINS:'', ''I SEE:'', ''THE IMAGE SHOWS:'',
      ''THE TEXT IN THE IMAGE IS:'', ''CAPTCHA TEXT:'', ''THE CAPTCHA TEXT IS:'']"

fun strip_first_pattern :: "string list \<Rightarrow> string \<Rightarrow> string" where
  "strip_first_pattern [] s = s"
| "strip_first_pattern (pattern # patterns) s =
     (if prefix pattern s then strip (drop (length pattern) s)
      else strip_first_pattern patterns s)"

text \<open>The argument of \<^verbatim>\<open>strip\<close> in step 4: quotes and punctuation.\<close>

definition surrounding_punctuation :: string where
  "surrounding_punctuation =
     [CHR 0x27, CHR 0x22, CHR ''.'', CHR '','', CHR ''!'', CHR ''?'', CHR ''-'', CHR ''_'',
      CHR ''('', CHR '')'', CHR ''['', CHR '']'', CHR ''{'', CHR ''}'', CHR '':'', CHR '';'']"

text \<open>The cleaner returns \<^verbatim>\<open>None\<close> or the cleaned text. Steps 1 to 6 compute
  \<open>captcha_text\<close>; step 7 is the chain of three branches on its length.\<close>

definition clean_captcha_response :: "string \<Rightarrow> string option" where
  "clean_captcha_response text =
     (if text = [] then None
      else
        let t1 = upper (strip text);
            t2 = strip_first_pattern unwanted_patterns t1;
            t3 = (case findall_AZ09 3 8 t2 of [] \<Rightarrow> t2 | m # _ \<Rightarrow> m);
            t4 = strip_chars surrounding_punctuation t3;
            t5 = nfkd t4;
            captcha_text = filter is_AZ09 t5
        in if captcha_text \<noteq> [] \<and> 3 \<le> length captcha_text \<and> length captcha_text \<le> 10
           then Some captcha_text
           else if captcha_text \<noteq> [] \<and> 10 < length captcha_text
           then (case findall_AZ09 4 6 captcha_text of
                   best_match # _ \<Rightarrow> Some best_match
                 | [] \<Rightarrow> if 3 \<le> length captcha_text then Some (take 6 captcha_text) else None)
           else if captcha_text \<noteq> [] then Some captcha_text else None)"

section \<open>The captcha solver\<close>

text \<open>
  The vision model is an external capability: asked with a prompt and an image, it raises,
  answers without text, or answers with a text. Its answers may differ from call to call,
  so a model is a function of the number of the call (from 0) within one solving run, the
  prompt and the image.
\<close>

datatype ai_reply = AiRaises | AiNoText | AiText string

type_synonym 'img vision_model = "nat \<Rightarrow> string \<Rightarrow> 'img \<Rightarrow> ai_reply"

text \<open>\<^verbatim>\<open>config.CAPTCHA_PROMPTS\<close> and \<^verbatim>\<open>config.CAPTCHA_PROMPT\<close>, its first entry.\<close>

definition CAPTCHA_PROMPTS :: "string list" where
  "CAPTCHA_PROMPTS =
     [''Extract only the alphanumeric text from this captcha image. Return just the characters with no explanations, no prefixes, no quotes - only the pure text characters.'',
      ''What text is shown in this captcha image? Reply with only the text characters in.'',
      ''Read the captcha code from this image. Output only the code.'',
      ''OCR this captcha image. Return only the alphanumeric characters.'']"

definition CAPTCHA_PROMPT :: string where
  "CAPTCHA_PROMPT = CAPTCHA_PROMPTS ! 0"

text \<open>The test of line 261 on the cleaned text: present, non-empty, at least four
  characters, alphanumeric.\<close>

definition accepted :: "string option \<Rightarrow> bool" where
  "accepted cleaned_text =
     (case cleaned_text of
        None \<Rightarrow> False
      | Some t \<Rightarrow> t \<noteq> [] \<and> 4 \<le> length t \<and> isalnum t)"

text \<open>
  One pass through the body of the attempt loop (lines 241 to 272): \<open>Some token\<close> when the
  pass returns the token, \<open>None\<close> when the loop goes on (an answer without text, a cleaned
  text that fails the test, or an exception of the model, which the inner handler
  swallows).
\<close>

definition captcha_attempt :: "'img vision_model \<Rightarrow> string list \<Rightarrow> 'img \<Rightarrow> nat \<Rightarrow> string option" where
  "captcha_attempt model prompts img attempt =
     (let prompt_index = attempt mod length prompts;
          current_prompt = prompts ! prompt_index
      in case model attempt current_prompt img of
           AiText text \<Rightarrow>
             if text \<noteq> [] then
               (let raw_text = strip text;
                    cleaned_text = clean_captcha_response raw_text
                in if accepted cleaned_text then cleaned_text else None)
             else None
         | AiNoText \<Rightarrow> None
         | AiRaises \<Rightarrow> None)"

text \<open>
  The loop \<^verbatim>\<open>for attempt in range(max_retries)\<close> over the attempts still to make. The
  result is the returned text (the empty string after the last attempt) with the prompt
  indices of the model calls made, in order.
\<close>

fun attempts_loop :: "'img vision_model \<Rightarrow> string list \<Rightarrow> 'img \<Rightarrow> nat list \<Rightarrow> string \<times> nat list" where
  "attempts_loop model prompts img [] = ([], [])"
| "attempts_loop model prompts img (attempt # rest) =
     (case captcha_attempt model prompts img attempt of
        Some token \<Rightarrow> (token, [attempt mod length prompts])
      | None \<Rightarrow>
          (case attempts_loop model prompts img rest of
             (token, used) \<Rightarrow> (token, (attempt mod length prompts) # used)))"

text \<open>
  What fetching the captcha gives: setting up the model or \<^verbatim>\<open>requests.get\<close> raises, or
  the response has a status code and \<^verbatim>\<open>Image.open\<close> on its content raises or gives the
  image.
\<close>

datatype 'img download = DownloadRaises | Downloaded nat "error + 'img"

text \<open>
  \<^verbatim>\<open>JainAttendanceChecker.solve_captcha_with_gemini\<close> (lines 208 to 283). Every failure
  returns the empty string. With an empty prompt list the first pass divides by zero, and
  its handler then reads \<^verbatim>\<open>prompt_index\<close> before any assignment, which leaves the loop
  for the outer handler; with no pass at all the loop ends at once.
\<close>

definition solve_captcha_with_gemini ::
    "'img vision_model \<Rightarrow> string list \<Rightarrow> 'img download \<Rightarrow> nat \<Rightarrow> string \<times> nat list" where
  "solve_captcha_with_gemini model prompts response max_retries =
     (case response of
        DownloadRaises \<Rightarrow> ([], [])
      | Downloaded status_code opened \<Rightarrow>
          if status_code \<noteq> 200 then ([], [])
          else (case opened of
                  Inl e \<Rightarrow> ([], [])
                | Inr img \<Rightarrow>
                    if prompts = [] then ([], [])
                    else attempts_loop model prompts img [0..<max_retries]))"

text \<open>
  \<^verbatim>\<open>JainAttendanceChecker.solve_captcha_with_screenshot\<close> (lines 285 to 328): one call
  of the model with \<^verbatim>\<open>config.CAPTCHA_PROMPT\<close> on the screenshot (taking it, or opening it
  as an image, may raise); the cleaned text is returned if it is not empty, and every
  failure returns \<^verbatim>\<open>None\<close>.
\<close>

definition solve_captcha_with_screenshot ::
    "'img vision_model \<Rightarrow> string \<Rightarrow> error + 'img \<Rightarrow> string option" where
  "solve_captcha_with_screenshot model prompt screenshot =
     (case screenshot of
        Inl e \<Rightarrow> None
      | Inr img \<Rightarrow>
          (case model 0 prompt img of
             AiRaises \<Rightarrow> None
           | AiNoText \<Rightarrow> None
           | AiText text \<Rightarrow>
               if text \<noteq> [] then
                 (case clean_captcha_response text of
                    Some captcha_text \<Rightarrow> if captcha_text \<noteq> [] then Some captcha_text else None
                  | None \<Rightarrow> None)
               else None))"

text \<open>
  The solver as the specification words it: the cleaned response of attempt \<open>i\<close> is the
  normaliser's value on the stripped text the model gives for prompt variant
  \<open>i mod (number of variants)\<close>, absent when the model gives no text.
\<close>

definition cleaned_reply :: "'img vision_model \<Rightarrow> string list \<Rightarrow> 'img \<Rightarrow> nat \<Rightarrow> string option" where
  "cleaned_reply model prompts img i =
     (case model i (prompts ! (i mod length prompts)) img of
        AiText text \<Rightarrow> if text = [] then None else clean_captcha_response (strip text)
      | AiNoText \<Rightarrow> None
      | AiRaises \<Rightarrow> None)"

section \<open>Reading counts from the page\<close>

subsection \<open>Text to numbers\<close>

text \<open>
  \<^verbatim>\<open>int(s)\<close> on a string of ASCII digits. CPython from 3.11 on refuses a decimal string of
  more than 4300 digits (\<^verbatim>\<open>sys.int_info.default_max_str_digits\<close>) with a
  \<^verbatim>\<open>ValueError\<close>. The callers apply \<^verbatim>\<open>int\<close> to digit strings only.
\<close>

definition digit_value :: "char \<Rightarrow> int" where
  "digit_value c = int (of_char c) - 48"

definition int_of_digits :: "string \<Rightarrow> int" where
  "int_of_digits s = foldl (\<lambda>acc c. 10 * acc + digit_value c) 0 s"

definition max_str_digits :: nat where
  "max_str_digits = 4300"

definition py_int :: "string \<Rightarrow> error + int" where
  "py_int s = (if max_str_digits < length s then Inl ValueError else Inr (int_of_digits s))"

text \<open>\<^verbatim>\<open>re.findall(r'\d+', s)\<close>: the maximal runs of digits, from left to right; \<open>cur\<close> is
  the run being read.\<close>

fun digit_runs :: "string \<Rightarrow> string \<Rightarrow> string list" where
  "digit_runs cur [] = (if cur = [] then [] else [cur])"
| "digit_runs cur (c # cs) =
     (if isdigit_chr c then digit_runs (cur @ [c]) cs
      else if cur = [] then digit_runs [] cs
      else cur # digit_runs [] cs)"

definition findall_digits :: "string \<Rightarrow> string list" where
  "findall_digits s = digit_runs [] s"

text \<open>\<^verbatim>\<open>sep in s\<close> and \<^verbatim>\<open>s.split(sep)\<close> for a non-empty separator: the pieces between
  the occurrences of \<open>sep\<close>, found from left to right without overlap; \<open>cur\<close> is the piece
  being read.\<close>

fun str_contains :: "string \<Rightarrow> string \<Rightarrow> bool" where
  "str_contains sep [] = (sep = [])"
| "str_contains sep (c # cs) = (prefix sep (c # cs) \<or> str_contains sep cs)"

function split_from :: "string \<Rightarrow> string \<Rightarrow> string \<Rightarrow> string list" where
  "split_from sep cur [] = [cur]"
| "split_from sep cur (c # cs) =
     (if sep \<noteq> [] \<and> prefix sep (c # cs)
      then cur # split_from sep [] (drop (length sep) (c # cs))
      else split_from sep (cur @ [c]) cs)"
  by pat_completeness auto
termination
  by (relation "measure (\<lambda>(sep, cur, s). length s)") (auto simp: neq_Nil_conv)

definition py_split :: "string \<Rightarrow> string \<Rightarrow> string list" where
  "py_split sep s = split_from sep [] s"

subsection \<open>Elements and pages\<close>

text \<open>
  An element handle answers \<^verbatim>\<open>is_visible()\<close> and \<^verbatim>\<open>text_content()\<close>; either call may
  raise, and \<^verbatim>\<open>text_content()\<close> may return \<^verbatim>\<open>None\<close>. A page answers
  \<^verbatim>\<open>query_selector_all(selector)\<close> with the matching elements in document order, or
  raises. A page value is the page as it stands while one method of the checker reads it.
\<close>

record element =
  is_visible :: "error + bool"
  text_content :: "error + string option"

type_synonym page = "string \<Rightarrow> error + element list"

text \<open>A loop that returns at the first element whose body returns, and otherwise falls
  through.\<close>

fun first_return :: "('a \<Rightarrow> 'b option) \<Rightarrow> 'a list \<Rightarrow> 'b option" where
  "first_return body [] = None"
| "first_return body (x # xs) =
     (case body x of Some r \<Rightarrow> Some r | None \<Rightarrow> first_return body xs)"

subsection \<open>Conducted count\<close>

text \<open>
  The body of the loop of \<^verbatim>\<open>extract_conducted_count\<close> (lines 809 to 819) on one element:
  \<open>Some result\<close> when it returns, \<open>None\<close> when the loop goes on, which the bare
  \<^verbatim>\<open>except\<close> also makes of any exception.
\<close>

definition conducted_of_visible :: "element \<Rightarrow> int option" where
  "conducted_of_visible elem =
     (case is_visible elem of
        Inl e \<Rightarrow> None
      | Inr visible \<Rightarrow>
          if visible then
            (case text_content elem of
               Inl e \<Rightarrow> None
             | Inr None \<Rightarrow> None
             | Inr (Some text) \<Rightarrow>
                 if text \<noteq> [] \<and> isdigit (strip text) then
                   (case py_int (strip text) of
                      Inl e \<Rightarrow> None
                    | Inr result \<Rightarrow> if 1 \<le> result \<and> result \<le> 50 then Some result else None)
                 else None)
          else None)"

text \<open>The fallback on the last element (lines 822 to 827); an exception there reaches the
  handler of the method, which returns \<^verbatim>\<open>None\<close>.\<close>

definition conducted_fallback :: "element list \<Rightarrow> int option" where
  "conducted_fallback all_conducted =
     (if all_conducted \<noteq> [] then
        (case text_content (last all_conducted) of
           Inl e \<Rightarrow> None
         | Inr None \<Rightarrow> None
         | Inr (Some text) \<Rightarrow>
             if text \<noteq> [] \<and> isdigit (strip text) then
               (case py_int (strip text) of Inl e \<Rightarrow> None | Inr result \<Rightarrow> Some result)
             else None)
      else None)"

text \<open>\<^verbatim>\<open>JainAttendanceChecker.extract_conducted_count\<close> (lines 789 to 833). The selector is
  the literal of line 805, \<^verbatim>\<open>span[id*='lblClsCondID']\<close>.\<close>

definition conducted_selector :: string where
  "conducted_selector = ''span[id*='' @ [CHR 0x27] @ ''lblClsCondID'' @ [CHR 0x27] @ '']''"

definition extract_conducted_count :: "page \<Rightarrow> int option" where
  "extract_conducted_count pg =
     (case pg conducted_selector of
        Inl e \<Rightarrow> None
      | Inr all_conducted \<Rightarrow>
          (case first_return conducted_of_visible (rev all_conducted) of
             Some result \<Rightarrow> Some result
           | None \<Rightarrow> conducted_fallback all_conducted))"

subsection \<open>Attended count\<close>

text \<open>
  Lines 865 to 870 and 887 to 892: the piece after the first \<^verbatim>\<open>Total-\<close> (up to the next
  one, if any), the first run of digits in it, and its value; \<open>None\<close> when the piece has
  no digit. The outer \<open>Inl\<close> is an exception (of \<^verbatim>\<open>int\<close>, or of the index when the text
  has no marker).
\<close>

definition total_count :: "string \<Rightarrow> error + int option" where
  "total_count text =
     (case py_split ''Total-'' text of
        _ # total_part # _ \<Rightarrow>
          (case findall_digits total_part of
             [] \<Rightarrow> Inr None
           | number # _ \<Rightarrow> (case py_int number of Inl e \<Rightarrow> Inl e | Inr result \<Rightarrow> Inr (Some result)))
      | _ \<Rightarrow> Inl ValueError)"

text \<open>The body of the loop of \<^verbatim>\<open>extract_attended_count\<close> (lines 855 to 880) on one
  element.\<close>

definition attended_of_visible :: "element \<Rightarrow> int option" where
  "attended_of_visible elem =
     (case is_visible elem of
        Inl e \<Rightarrow> None
      | Inr visible \<Rightarrow>
          if visible then
            (case text_content elem of
               Inl e \<Rightarrow> None
             | Inr None \<Rightarrow> None
             | Inr (Some text0) \<Rightarrow>
                 if text0 \<noteq> [] \<and> strip text0 \<noteq> [] then
                   (let text = strip text0
                    in if str_contains ''Total-'' text then
                         (case total_count text of
                            Inl e \<Rightarrow> None
                          | Inr None \<Rightarrow> None
                          | Inr (Some result) \<Rightarrow> Some result)
                       else if isdigit text then
                         (case py_int text of
                            Inl e \<Rightarrow> None
                          | Inr num \<Rightarrow> if 1 \<le> num \<and> num \<le> 50 then Some num else None)
                       else None)
                 else None)
          else None)"

text \<open>The fallback on the last element (lines 883 to 892): only the text with the marker
  is parsed, and it is not stripped.\<close>

definition attended_fallback :: "element list \<Rightarrow> int option" where
  "attended_fallback all_attended =
     (if all_attended \<noteq> [] then
        (case text_content (last all_attended) of
           Inl e \<Rightarrow> None
         | Inr None \<Rightarrow> None
         | Inr (Some text) \<Rightarrow>
             if text \<noteq> [] \<and> str_contains ''Total-'' text then
               (case total_count text of
                  Inl e \<Rightarrow> None
                | Inr None \<Rightarrow> None
                | Inr (Some result) \<Rightarrow> Some result)
             else None)
      else None)"

text \<open>\<^verbatim>\<open>JainAttendanceChecker.extract_attended_count\<close> (lines 835 to 898). The selector is
  the literal of line 851, \<^verbatim>\<open>span[id*='lblClsAttID']\<close>.\<close>

definition attended_selector :: string where
  "attended_selector = ''span[id*='' @ [CHR 0x27] @ ''lblClsAttID'' @ [CHR 0x27] @ '']''"

definition extract_attended_count :: "page \<Rightarrow> int option" where
  "extract_attended_count pg =
     (case pg attended_selector of
        Inl e \<Rightarrow> None
      | Inr all_attended \<Rightarrow>
          (case first_return attended_of_visible (rev all_attended) of
             Some result \<Rightarrow> Some result
           | None \<Rightarrow> attended_fallback all_attended))"

section \<open>Extraction of the attendance data\<close>

text \<open>The lists the checker keeps (\<^verbatim>\<open>__init__\<close>, lines 43 to 45).\<close>

record checker =
  conducted_list :: "int list"
  attended_list :: "int list"
  subject_names :: "string list"

text \<open>
  What the browser does during one run of \<^verbatim>\<open>extract_attendance_data\<close>: whether the
  initial waits and reads (lines 596 to 601) raise; the names
  \<^verbatim>\<open>extract_all_subject_names\<close> leaves in \<^verbatim>\<open>subject_names\<close> (it handles its own
  exceptions, and how it finds the names plays no part below); the page before any
  icon is clicked; and, for the \<open>index\<close>-th icon of the loop (from 1), whether scrolling to
  it, clicking it or one of the fixed waits of that pass raises, or else the page as it
  stands afterwards, while the two counts of that subject are read.
\<close>

record browser =
  page_ready :: "error + unit"
  names_found :: "string list"
  query_selector_all :: page
  expand :: "nat \<Rightarrow> error + page"

text \<open>\<^verbatim>\<open>config.PLUS_ICON_SELECTOR\<close>, \<^verbatim>\<open>config.PLUS_ICON_XPATH\<close>, the alternative
  selectors of lines 626 to 632 and the selector of the diagnostic query of line 648.\<close>

definition PLUS_ICON_SELECTOR :: string where
  "PLUS_ICON_SELECTOR = ''i.bx-plus-circle''"

definition PLUS_ICON_XPATH :: string where
  "PLUS_ICON_XPATH = ''//i[contains(@class, '' @ [CHR 0x27] @ ''bx-plus-circle'' @ [CHR 0x27] @ '')]''"

definition alternative_selectors :: "string list" where
  "alternative_selectors =
     [''i[class*='' @ [CHR 0x27] @ ''plus'' @ [CHR 0x27] @ '']'',
      ''i[class*='' @ [CHR 0x27] @ ''bx-plus'' @ [CHR 0x27] @ '']'',
      ''i[class*='' @ [CHR 0x27] @ ''fa-plus'' @ [CHR 0x27] @ '']'',
      ''button[class*='' @ [CHR 0x27] @ ''expand'' @ [CHR 0x27] @ '']'',
      ''[class*='' @ [CHR 0x27] @ ''expand'' @ [CHR 0x27] @ '']'']"

definition clickable_selector :: string where
  "clickable_selector = ''button, a, i, [onclick]''"

text \<open>Strategies 1 and 2 (lines 610 to 622): a query inside \<^verbatim>\<open>try\<close>; when it raises,
  \<^verbatim>\<open>plus_icons\<close> stays the empty list it was.\<close>

definition try_query :: "page \<Rightarrow> string \<Rightarrow> element list" where
  "try_query pg selector = (case pg selector of Inl e \<Rightarrow> [] | Inr found \<Rightarrow> found)"

text \<open>Strategy 3 (lines 634 to 641): the loop over the alternative selectors, left at the
  first non-empty answer. The result is \<^verbatim>\<open>plus_icons\<close> after the loop with the selectors
  queried, in order.\<close>

fun alternatives_loop :: "page \<Rightarrow> string list \<Rightarrow> element list \<times> string list" where
  "alternatives_loop pg [] = ([], [])"
| "alternatives_loop pg (selector # rest) =
     (case pg selector of
        Inr (icon # icons) \<Rightarrow> (icon # icons, [selector])
      | Inr [] \<Rightarrow> (case alternatives_loop pg rest of (found, queried) \<Rightarrow> (found, selector # queried))
      | Inl e \<Rightarrow> (case alternatives_loop pg rest of (found, queried) \<Rightarrow> (found, selector # queried)))"

text \<open>Lines 606 to 641 of \<^verbatim>\<open>extract_attendance_data\<close>: the plus icons found and the
  selectors queried on the way, in order.\<close>

definition find_plus_icons :: "page \<Rightarrow> element list \<times> string list" where
  "find_plus_icons pg =
     (let css = try_query pg PLUS_ICON_SELECTOR
      in if css \<noteq> [] then (css, [PLUS_ICON_SELECTOR])
         else
           let xp = try_query pg (''xpath='' @ PLUS_ICON_XPATH)
           in if xp \<noteq> [] then (xp, [PLUS_ICON_SELECTOR, ''xpath='' @ PLUS_ICON_XPATH])
              else
                (case alternatives_loop pg alternative_selectors of
                   (found, queried) \<Rightarrow>
                     (found, [PLUS_ICON_SELECTOR, ''xpath='' @ PLUS_ICON_XPATH] @ queried)))"

text \<open>
  One pass through the loop over the icons (lines 667 to 707), for the subject with
  1-based \<open>index\<close>: the counts are appended, both or neither; a subject whose icon cannot
  be clicked (the exception is handled by \<^verbatim>\<open>continue\<close>) or for which a count is
  \<^verbatim>\<open>None\<close> leaves the lists as they are.
\<close>

definition process_subject :: "browser \<Rightarrow> nat \<Rightarrow> checker \<Rightarrow> checker" where
  "process_subject b index st =
     (case expand b index of
        Inl e \<Rightarrow> st
      | Inr pg \<Rightarrow>
          (let conducted = extract_conducted_count pg;
               attended = extract_attended_count pg
           in case (conducted, attended) of
                (Some c, Some a) \<Rightarrow>
                  st\<lparr>conducted_list := conducted_list st @ [c],
                     attended_list := attended_list st @ [a]\<rparr>
              | _ \<Rightarrow> st))"

text \<open>
  \<^verbatim>\<open>JainAttendanceChecker.extract_attendance_data\<close> (lines 581 to 710): the checker
  afterwards, with the selectors queried on the page before any click, in order.
\<close>

definition extract_attendance_data :: "browser \<Rightarrow> checker \<Rightarrow> checker \<times> string list" where
  "extract_attendance_data b st =
     (let st0 = st\<lparr>conducted_list := [], attended_list := [], subject_names := []\<rparr>
      in case page_ready b of
           Inl e \<Rightarrow> (st0, [])
         | Inr ready \<Rightarrow>
             (let st1 = st0\<lparr>subject_names := names_found b\<rparr>
              in case find_plus_icons (query_selector_all b) of
                   (plus_icons, queried) \<Rightarrow>
                     if plus_icons = [] then (st1, queried @ [clickable_selector])
                     else (fold (process_subject b) [1..<Suc (length plus_icons)] st1, queried)))"

section \<open>Aggregation\<close>

subsection \<open>Floating point\<close>

text \<open>
  A Python \<^verbatim>\<open>float\<close> is an IEEE 754 binary64 number: a rational with a significand of 53
  bits and a binary exponent from -1074 to 971, or an infinity. No operation of the
  aggregator makes a NaN. \<open>to_double\<close> is the rounding of the exact result of an
  operation to the nearest such number, ties to the even significand: the result lies in
  the binade \<open>2 ^ e \<le> \<bar>q\<bar> < 2 ^ (e + 1)\<close> (no lower than that of the least normal number,
  below which the spacing stays \<open>2 ^ -1074\<close>), where the numbers are spaced
  \<open>2 ^ (e - 52)\<close> apart, and a rounded value of \<open>2 ^ 1024\<close> or more is an infinity.
\<close>

datatype pyfloat = Finite rat | PosInf | NegInf

definition pow2 :: "int \<Rightarrow> rat" where
  "pow2 e = (if 0 \<le> e then 2 ^ nat e else 1 / 2 ^ nat (- e))"

text \<open>The number of binary digits of a positive integer.\<close>

function bit_length :: "int \<Rightarrow> nat" where
  "bit_length n = (if n \<le> 0 then 0 else Suc (bit_length (n div 2)))"
  by pat_completeness auto
termination
  by (relation "measure nat") auto

definition round_half_even :: "rat \<Rightarrow> int" where
  "round_half_even x =
     (let f = \<lfloor>x\<rfloor>; d = x - of_int f
      in if d < 1 / 2 then f
         else if 1 / 2 < d then f + 1
         else if even f then f else f + 1)"

text \<open>The binade of a positive rational \<open>p / d\<close>: the difference of the bit lengths of
  \<open>p\<close> and \<open>d\<close>, or one less.\<close>

definition binade :: "rat \<Rightarrow> int" where
  "binade a =
     (case quotient_of a of
        (p, d) \<Rightarrow>
          (let k = int (bit_length p) - int (bit_length d)
           in if pow2 k \<le> a then k else k - 1))"

definition to_double :: "rat \<Rightarrow> pyfloat" where
  "to_double q =
     (if q = 0 then Finite 0
      else
        let a = \<bar>q\<bar>;
            e = max (binade a) (- 1022);
            ulp = pow2 (e - 52);
            r = of_int (round_half_even (a / ulp)) * ulp
        in if pow2 1024 \<le> r then (if 0 < q then PosInf else NegInf)
           else Finite (if 0 < q then r else - r))"

text \<open>
  \<^verbatim>\<open>a / b\<close> on two integers: a zero divisor raises \<^verbatim>\<open>ZeroDivisionError\<close>; otherwise the
  result is the exact quotient correctly rounded, and a quotient too large for a float
  raises \<^verbatim>\<open>OverflowError\<close>.
\<close>

definition py_truediv :: "int \<Rightarrow> int \<Rightarrow> error + pyfloat" where
  "py_truediv a b =
     (if b = 0 then Inl ZeroDivisionError
      else
        (case to_double (of_int a / of_int b) of
           Finite v \<Rightarrow> Inr (Finite v)
         | PosInf \<Rightarrow> Inl OverflowError
         | NegInf \<Rightarrow> Inl OverflowError))"

text \<open>\<^verbatim>\<open>x * n\<close> for a float and a positive integer constant: the exact product rounded; a
  product too large is an infinity, without an exception.\<close>

definition float_times :: "pyfloat \<Rightarrow> rat \<Rightarrow> pyfloat" where
  "float_times x n =
     (case x of
        Finite v \<Rightarrow> to_double (v * n)
      | PosInf \<Rightarrow> PosInf
      | NegInf \<Rightarrow> NegInf)"

text \<open>\<^verbatim>\<open>x >= n\<close> for a float and an integer constant.\<close>

definition float_ge :: "pyfloat \<Rightarrow> rat \<Rightarrow> bool" where
  "float_ge x n = (case x of Finite v \<Rightarrow> n \<le> v | PosInf \<Rightarrow> True | NegInf \<Rightarrow> False)"

subsection \<open>Percentages, status and reports\<close>

text \<open>\<^verbatim>\<open>config.GOOD_ATTENDANCE_THRESHOLD\<close> and \<^verbatim>\<open>config.WARNING_ATTENDANCE_THRESHOLD\<close>.\<close>

definition GOOD_ATTENDANCE_THRESHOLD :: rat where
  "GOOD_ATTENDANCE_THRESHOLD = 75"

definition WARNING_ATTENDANCE_THRESHOLD :: rat where
  "WARNING_ATTENDANCE_THRESHOLD = 65"

datatype status = GOOD | WARNING | CRITICAL

text \<open>\<^verbatim>\<open>(attended / conducted * 100) if conducted > 0 else 0\<close>, as on lines 1055 to 1058 and
  1063, and on lines 164 and 183 of the web application.\<close>

definition percentage_of :: "int \<Rightarrow> int \<Rightarrow> error + pyfloat" where
  "percentage_of attended conducted =
     (if conducted > 0 then
        (case py_truediv attended conducted of
           Inl e \<Rightarrow> Inl e
         | Inr q \<Rightarrow> Inr (float_times q 100))
      else Inr (Finite 0))"

text \<open>The chain of comparisons of lines 1073 to 1078, and 186 to 194 of the web
  application.\<close>

definition status_of :: "pyfloat \<Rightarrow> status" where
  "status_of percentage =
     (if float_ge percentage GOOD_ATTENDANCE_THRESHOLD then GOOD
      else if float_ge percentage WARNING_ATTENDANCE_THRESHOLD then WARNING
      else CRITICAL)"

text \<open>\<^verbatim>\<open>str(n)\<close> for a natural number, for the names \<^verbatim>\<open>Subject n\<close>.\<close>

fun str_of_nat :: "nat \<Rightarrow> string" where
  "str_of_nat n =
     (if n < 10 then [char_of (48 + n)] else str_of_nat (n div 10) @ [char_of (48 + n mod 10)])"

text \<open>The percentages of a report are the floats as computed; \<^verbatim>\<open>round(x, 2)\<close> in the web
  report and the format \<^verbatim>\<open>.2f\<close> on the console, which change how they are shown, are
  left out.\<close>

record subject_row =
  row_id :: nat
  row_name :: string
  row_conducted :: int
  row_attended :: int
  row_percentage :: pyfloat

text \<open>The loop of lines 163 to 179 of the web application over the zipped lists, from
  the 0-based position \<open>i\<close> on.\<close>

fun subject_rows :: "string list \<Rightarrow> nat \<Rightarrow> (int \<times> int) list \<Rightarrow> error + subject_row list" where
  "subject_rows names i [] = Inr []"
| "subject_rows names i ((conducted, attended) # rest) =
     (case percentage_of attended conducted of
        Inl e \<Rightarrow> Inl e
      | Inr percentage \<Rightarrow>
          (case subject_rows names (Suc i) rest of
             Inl e \<Rightarrow> Inl e
           | Inr rows \<Rightarrow>
               Inr (\<lparr>row_id = i + 1,
                     row_name = (if i < length names then names ! i
                                 else ''Subject '' @ str_of_nat (i + 1)),
                     row_conducted = conducted,
                     row_attended = attended,
                     row_percentage = percentage\<rparr> # rows)))"

record report =
  subjects :: "subject_row list"
  total_conducted :: int
  total_attended :: int
  overall_percentage :: pyfloat
  report_status :: status

text \<open>
  \<^verbatim>\<open>WebAttendanceChecker.prepare_results_for_web\<close> (lines 157 to 204 of the web
  application): \<^verbatim>\<open>None\<close> when a list is empty, else the report; an exception of a
  division leaves the method. The status class follows the status, and the time stamp is
  left out.
\<close>

definition prepare_results_for_web :: "checker \<Rightarrow> error + report option" where
  "prepare_results_for_web st =
     (if conducted_list st = [] \<or> attended_list st = [] then Inr None
      else
        (case subject_rows (subject_names st) 0 (zip (conducted_list st) (attended_list st)) of
           Inl e \<Rightarrow> Inl e
         | Inr rows \<Rightarrow>
             (let total_c = sum_list (conducted_list st);
                  total_a = sum_list (attended_list st)
              in case percentage_of total_a total_c of
                   Inl e \<Rightarrow> Inl e
                 | Inr overall \<Rightarrow>
                     Inr (Some \<lparr>subjects = rows,
                                total_conducted = total_c,
                                total_attended = total_a,
                                overall_percentage = overall,
                                report_status = status_of overall\<rparr>))))"

text \<open>
  \<^verbatim>\<open>JainAttendanceChecker.calculate_and_display_results\<close> (lines 1038 to 1078) prints
  and returns nothing; what it prints after the guard is the same totals, percentages
  and status, with the subjects numbered and unnamed. \<open>None\<close> stands for the early return
  that prints only that no data was extracted, and an exception of a division leaves the
  method. The overall percentage is computed before the subjects are listed.
\<close>

definition calculate_and_display_results :: "checker \<Rightarrow> error + report option" where
  "calculate_and_display_results st =
     (if conducted_list st = [] \<or> attended_list st = [] then Inr None
      else
        (let total_c = sum_list (conducted_list st);
             total_a = sum_list (attended_list st)
         in case percentage_of total_a total_c of
              Inl e \<Rightarrow> Inl e
            | Inr overall \<Rightarrow>
                (case subject_rows [] 0 (zip (conducted_list st) (attended_list st)) of
                   Inl e \<Rightarrow> Inl e
                 | Inr rows \<Rightarrow>
                     Inr (Some \<lparr>subjects = rows,
                                total_conducted = total_c,
                                total_attended = total_a,
                                overall_percentage = overall,
                                report_status = status_of overall\<rparr>))))"

section \<open>Notions of the specification\<close>

text \<open>
  The cascade of locator strategies in its fixed priority order, and what it means for a
  strategy to return at least one element on a page (a query that raises returns none).
\<close>

definition locator_strategies :: "string list" where
  "locator_strategies =
     [PLUS_ICON_SELECTOR, ''xpath='' @ PLUS_ICON_XPATH] @ alternative_selectors"

definition returns_elements :: "page \<Rightarrow> string \<Rightarrow> bool" where
  "returns_elements pg selector = (try_query pg selector \<noteq> [])"

text \<open>
  The subjects the loop of \<^verbatim>\<open>extract_attendance_data\<close> visits, by their 1-based index in
  page order, and the counts extracted for one of them: \<open>None\<close> when its icon cannot be
  clicked or when either count is absent.
\<close>

definition subjects_processed :: "browser \<Rightarrow> nat list" where
  "subjects_processed b =
     (case page_ready b of
        Inl e \<Rightarrow> []
      | Inr ready \<Rightarrow> [1..<Suc (length (fst (find_plus_icons (query_selector_all b))))])"

definition subject_counts :: "browser \<Rightarrow> nat \<Rightarrow> (int \<times> int) option" where
  "subject_counts b index =
     (case expand b index of
        Inl e \<Rightarrow> None
      | Inr pg \<Rightarrow>
          (case (extract_conducted_count pg, extract_attended_count pg) of
             (Some c, Some a) \<Rightarrow> Some (c, a)
           | _ \<Rightarrow> None))"

text \<open>
  The attended text as the specification words it: the text after the first occurrence
  of a marker, the text before the first occurrence of a marker (the whole text when
  there is none), and the first run of digits of a text.
\<close>

fun text_after_marker :: "string \<Rightarrow> string \<Rightarrow> string option" where
  "text_after_marker marker [] = None"
| "text_after_marker marker (c # cs) =
     (if prefix marker (c # cs) then Some (drop (length marker) (c # cs))
      else text_after_marker marker cs)"

fun text_before_marker :: "string \<Rightarrow> string \<Rightarrow> string" where
  "text_before_marker marker [] = []"
| "text_before_marker marker (c # cs) =
     (if prefix marker (c # cs) then [] else c # text_before_marker marker cs)"

definition first_digit_run :: "string \<Rightarrow> string option" where
  "first_digit_run s =
     (case dropWhile (\<lambda>c. \<not> isdigit_chr c) s of
        [] \<Rightarrow> None
      | d # ds \<Rightarrow> Some (takeWhile isdigit_chr (d # ds)))"

section \<open>Sample pages\<close>

definition visible_span :: "string \<Rightarrow> element" where
  "visible_span t = \<lparr>is_visible = Inr True, text_content = Inr (Some t)\<rparr>"

definition hidden_span :: "string \<Rightarrow> element" where
  "hidden_span t = \<lparr>is_visible = Inr False, text_content = Inr (Some t)\<rparr>"

definition plus_icon :: element where
  "plus_icon = \<lparr>is_visible = Inr True, text_content = Inr (Some [])\<rparr>"

text \<open>A page on which the conducted spans and the attended spans are the given elements,
  and no other selector matches.\<close>

definition counts_page :: "element list \<Rightarrow> element list \<Rightarrow> page" where
  "counts_page conducted attended =
     (\<lambda>selector. if selector = conducted_selector then Inr conducted
                 else if selector = attended_selector then Inr attended
                 else Inr [])"

text \<open>A page with \<open>n\<close> plus icons, which only the given selector finds.\<close>

definition icons_page :: "string \<Rightarrow> nat \<Rightarrow> page" where
  "icons_page found_by n = (\<lambda>selector. if selector = found_by then Inr (replicate n plus_icon) else Inr [])"

text \<open>Three subjects; the conducted span of the second holds no number.\<close>

definition three_subjects :: browser where
  "three_subjects =
     \<lparr>page_ready = Inr (),
      names_found = [''DATA VISUALISATION'', ''ALGEBRA'', ''PHYSICS''],
      query_selector_all = icons_page PLUS_ICON_SELECTOR 3,
      expand = (\<lambda>index.
        if index = 1 then Inr (counts_page [visible_span ''10''] [visible_span ''P-8/E-0/L-0/MCR-0/R-0/Total-8''])
        else if index = 2 then Inr (counts_page [visible_span ''--''] [visible_span ''P-5/E-0/L-0/MCR-0/R-0/Total-5''])
        else Inr (counts_page [visible_span ''20''] [visible_span ''P-15/E-0/L-0/MCR-0/R-0/Total-15'']))\<rparr>"

text \<open>Two subjects: the first with more classes attended than conducted, the second with
  a conducted count read by the fallback from a hidden span.\<close>

definition two_odd_subjects :: browser where
  "two_odd_subjects =
     \<lparr>page_ready = Inr (),
      names_found = [],
      query_selector_all = icons_page PLUS_ICON_SELECTOR 2,
      expand = (\<lambda>index.
        if index = 1 then Inr (counts_page [visible_span ''5''] [visible_span ''P-9/E-0/L-0/MCR-0/R-0/Total-9''])
        else Inr (counts_page [hidden_span ''99''] [visible_span ''3'']))\<rparr>"

text \<open>A page on which the CSS query raises, the XPath query finds nothing, and the third
  alternative selector finds two icons; and a page on which nothing is found.\<close>

definition drifted_page :: page where
  "drifted_page =
     (\<lambda>selector. if selector = PLUS_ICON_SELECTOR then Inl BrowserError
                 else if selector = alternative_selectors ! 2 then Inr [plus_icon, plus_icon]
                 else if selector = alternative_selectors ! 4 then Inr [plus_icon]
                 else Inr [])"

definition unrecognised :: browser where
  "unrecognised =
     \<lparr>page_ready = Inr (),
      names_found = [],
      query_selector_all = (\<lambda>selector. Inr []),
      expand = (\<lambda>index. Inl BrowserError)\<rparr>"


definition fresh_checker :: checker where
  "fresh_checker = \<lparr>conducted_list = [], attended_list = [], subject_names = []\<rparr>"

section \<open>Evaluation and rewriting setup\<close>

lemmas char_defs = isspace_chr_def isdigit_chr_def isupper_chr_def islower_chr_def
  isalnum_chr_def is_AZ09_def is_control_chr_def upper_chr_def Let_def

lemmas str_defs = upper_def strip_def strip_with_def strip_chars_def isalnum_def
  isdigit_def nfkd_def

section \<open>The field typer on a mixed text\<close>

lemma clean_character_samples:
  "clean_captcha_character ''a'' = ''A''"
  "clean_captcha_character ''B'' = ''B''"
  "clean_captcha_character '' '' = []"
  "clean_captcha_character ''3'' = ''3''"
  "clean_captcha_character ''!'' = []"
  by code_simp+

text \<open>
  C9. Typing \<^verbatim>\<open>"aB 3!"\<close> sends exactly the keystrokes \<^verbatim>\<open>A\<close>, \<^verbatim>\<open>B\<close>, \<^verbatim>\<open>3\<close>, in that
  order, after whatever was sent before; the space and the exclamation mark are skipped,
  not typed as blanks, and the value read back from the field is \<^verbatim>\<open>"AB3"\<close> whatever the
  field held before.
\<close>

theorem typing_aB_3_bang:
  "fill_captcha_character_by_character ''aB 3!'' f =
     (f\<lparr>field_value := ''AB3'', keystrokes := keystrokes f @ [''A'', ''B'', ''3'']\<rparr>, ''AB3'')"
  by (simp add: fill_captcha_character_by_character_def type_character_def
      clean_character_samples page_fill_def keyboard_type_def Let_def)

theorem typing_aB_3_bang_witness:
  "snd (fill_captcha_character_by_character ''aB 3!'' \<lparr>field_value = ''zz'', keystrokes = []\<rparr>) = ''AB3''
   \<and> keystrokes (fst (fill_captcha_character_by_character ''aB 3!''
        \<lparr>field_value = ''zz'', keystrokes = []\<rparr>)) = [''A'', ''B'', ''3'']"
  using typing_aB_3_bang [of "\<lparr>field_value = ''zz'', keystrokes = []\<rparr>"] by simp

section \<open>Running the normaliser on its own output\<close>

declare findall_AZ09.simps(2) [simp del]

lemma findall_AZ09_hit:
  "leading_run hi (c # cs) \<noteq> [] \<Longrightarrow> lo \<le> length (leading_run hi (c # cs)) \<Longrightarrow>
     findall_AZ09 lo hi (c # cs) =
       leading_run hi (c # cs) # findall_AZ09 lo hi (drop (length (leading_run hi (c # cs))) (c # cs))"
  by (subst findall_AZ09.simps(2)) (simp only: simp_thms if_True)

lemma findall_AZ09_miss:
  "leading_run hi (c # cs) = [] \<or> \<not> lo \<le> length (leading_run hi (c # cs)) \<Longrightarrow>
     findall_AZ09 lo hi (c # cs) = findall_AZ09 lo hi cs"
  by (subst findall_AZ09.simps(2)) auto

lemma leading_run_length: "length (leading_run hi s) \<le> length s"
  using length_takeWhile_le [of is_AZ09 s] by (simp add: leading_run_def)

lemma leading_run_class: "list_all is_AZ09 (leading_run hi s)"
  unfolding leading_run_def list_all_iff
  by (auto dest!: in_set_takeD set_takeWhileD)

lemma leading_run_bound: "length (leading_run hi s) \<le> hi"
  by (simp add: leading_run_def)

lemma findall_AZ09_matches:
  "m \<in> set (findall_AZ09 lo hi s) \<Longrightarrow>
     m \<noteq> [] \<and> list_all is_AZ09 m \<and> lo \<le> length m \<and> length m \<le> hi"
proof (induction lo hi s rule: findall_AZ09.induct)
  case (1 lo hi)
  then show ?case by simp
next
  case (2 lo hi c cs)
  show ?case
  proof (cases "leading_run hi (c # cs) \<noteq> [] \<and> lo \<le> length (leading_run hi (c # cs))")
    case True
    with "2.prems" have "m = leading_run hi (c # cs) \<or>
        m \<in> set (findall_AZ09 lo hi (drop (length (leading_run hi (c # cs))) (c # cs)))"
      by (simp add: findall_AZ09_hit)
    then show ?thesis
    proof
      assume "m = leading_run hi (c # cs)"
      with True show ?thesis
        by (simp add: leading_run_class leading_run_bound)
    next
      assume "m \<in> set (findall_AZ09 lo hi (drop (length (leading_run hi (c # cs))) (c # cs)))"
      with True "2.IH"(1) show ?thesis by blast
    qed
  next
    case False
    with "2.prems" have "m \<in> set (findall_AZ09 lo hi cs)"
      by (simp add: findall_AZ09_miss)
    with False "2.IH"(2) show ?thesis by blast
  qed
qed

lemma findall_AZ09_short: "length s < lo \<Longrightarrow> findall_AZ09 lo hi s = []"
proof (induction s)
  case Nil
  then show ?case by simp
next
  case (Cons c cs)
  have "length (leading_run hi (c # cs)) \<le> length (c # cs)"
    by (rule leading_run_length)
  with Cons.prems have "\<not> lo \<le> length (leading_run hi (c # cs))"
    by linarith
  then have "findall_AZ09 lo hi (c # cs) = findall_AZ09 lo hi cs"
    by (simp add: findall_AZ09_miss)
  also have "\<dots> = []"
    using Cons by simp
  finally show ?case .
qed

lemma leading_run_all: "list_all is_AZ09 s \<Longrightarrow> leading_run hi s = take hi s"
  by (simp add: leading_run_def list_all_iff takeWhile_eq_all_conv [THEN iffD2])

lemma findall_AZ09_all:
  assumes "list_all is_AZ09 s" "0 < lo" "lo \<le> hi" "lo \<le> length s"
  shows "\<exists>rest. findall_AZ09 lo hi s = take hi s # rest"
proof (cases s)
  case Nil
  with assms show ?thesis by simp
next
  case (Cons c cs)
  with assms have run: "leading_run hi (c # cs) = take hi (c # cs)"
    by (simp add: leading_run_all)
  from assms Cons have "take hi (c # cs) \<noteq> []" "lo \<le> length (take hi (c # cs))"
    by auto
  with run have "leading_run hi (c # cs) \<noteq> []" "lo \<le> length (leading_run hi (c # cs))"
    by simp_all
  then have "findall_AZ09 lo hi (c # cs) = leading_run hi (c # cs) #
      findall_AZ09 lo hi (drop (length (leading_run hi (c # cs))) (c # cs))"
    by (rule findall_AZ09_hit)
  with run Cons show ?thesis by simp
qed

lemma dropWhile_none: "list_all (\<lambda>c. \<not> p c) s \<Longrightarrow> dropWhile p s = s"
  by (cases s) auto

lemma strip_with_none: "list_all (\<lambda>c. \<not> p c) s \<Longrightarrow> strip_with p s = s"
proof -
  assume a: "list_all (\<lambda>c. \<not> p c) s"
  then have "list_all (\<lambda>c. \<not> p c) (rev s)"
    by (simp add: list_all_iff)
  with a show ?thesis
    by (simp add: strip_with_def dropWhile_none)
qed

lemma AZ09_not_space: "is_AZ09 c \<Longrightarrow> \<not> isspace_chr c"
  by (auto simp: char_defs)

lemma AZ09_not_punctuation: "is_AZ09 c \<Longrightarrow> c \<notin> set surrounding_punctuation"
  by (auto simp: char_defs surrounding_punctuation_def)

lemma AZ09_upper: "is_AZ09 c \<Longrightarrow> upper_chr c = c"
  by (auto simp: char_defs)

lemma AZ09_not_colon: "is_AZ09 c \<Longrightarrow> c \<noteq> CHR '':''"
  by (auto simp: char_defs)

lemma strip_first_pattern_none:
  "list_all (\<lambda>p. CHR '':'' \<in> set p) ps \<Longrightarrow> CHR '':'' \<notin> set s \<Longrightarrow> strip_first_pattern ps s = s"
proof (induction ps)
  case Nil
  then show ?case by simp
next
  case (Cons p ps)
  from Cons.prems have "CHR '':'' \<in> set p" by simp
  with Cons.prems(2) have "\<not> prefix p s"
    using set_mono_prefix [of p s] by blast
  with Cons show ?case by simp
qed

lemma unwanted_patterns_colon: "list_all (\<lambda>p. CHR '':'' \<in> set p) unwanted_patterns"
  by (simp add: unwanted_patterns_def)

text \<open>An already clean text passes steps 1 to 6 unchanged but for the cut to eight characters.\<close>

lemma AZ09_text_fixed:
  assumes "list_all is_AZ09 r"
  shows "upper (strip r) = r" "strip_first_pattern unwanted_patterns r = r"
    "strip_chars surrounding_punctuation r = r" "filter is_AZ09 (nfkd r) = r"
proof -
  from assms have "list_all (\<lambda>c. \<not> isspace_chr c) r"
    by (simp add: list_all_iff AZ09_not_space)
  then have "strip r = r"
    by (simp add: strip_def strip_with_none)
  moreover from assms have "map upper_chr r = r"
    by (simp add: list_all_iff map_idI AZ09_upper)
  ultimately show "upper (strip r) = r"
    by (simp add: upper_def)
  from assms have "CHR '':'' \<notin> set r"
    using AZ09_not_colon by (auto simp: list_all_iff)
  then show "strip_first_pattern unwanted_patterns r = r"
    by (simp add: strip_first_pattern_none unwanted_patterns_colon)
  from assms have "list_all (\<lambda>c. \<not> c \<in> set surrounding_punctuation) r"
    by (simp add: list_all_iff AZ09_not_punctuation)
  then show "strip_chars surrounding_punctuation r = r"
    by (simp add: strip_chars_def strip_with_none)
  from assms show "filter is_AZ09 (nfkd r) = r"
    by (simp add: nfkd_def list_all_iff)
qed

lemma clean_captcha_response_range:
  assumes "clean_captcha_response s = Some r"
  shows "r \<noteq> [] \<and> list_all is_AZ09 r \<and> length r \<le> 10"
proof -
  define t where "t = filter is_AZ09 (nfkd (strip_chars surrounding_punctuation
      (case findall_AZ09 3 8 (strip_first_pattern unwanted_patterns (upper (strip s))) of
         [] \<Rightarrow> strip_first_pattern unwanted_patterns (upper (strip s)) | m # _ \<Rightarrow> m)))"
  have t: "list_all is_AZ09 t"
    by (simp add: t_def list_all_iff)
  have "clean_captcha_response s =
     (if s = [] then None
      else if t \<noteq> [] \<and> 3 \<le> length t \<and> length t \<le> 10 then Some t
      else if t \<noteq> [] \<and> 10 < length t
      then (case findall_AZ09 4 6 t of
              best_match # _ \<Rightarrow> Some best_match
            | [] \<Rightarrow> if 3 \<le> length t then Some (take 6 t) else None)
      else if t \<noteq> [] then Some t else None)"
    unfolding clean_captcha_response_def Let_def t_def ..
  with assms have r:
     "(if t \<noteq> [] \<and> 3 \<le> length t \<and> length t \<le> 10 then Some t
      else if t \<noteq> [] \<and> 10 < length t
      then (case findall_AZ09 4 6 t of
              best_match # _ \<Rightarrow> Some best_match
            | [] \<Rightarrow> if 3 \<le> length t then Some (take 6 t) else None)
      else if t \<noteq> [] then Some t else None) = Some r"
    by (simp split: if_splits)
  show ?thesis
  proof (cases "t \<noteq> [] \<and> 3 \<le> length t \<and> length t \<le> 10")
    case True
    with r t show ?thesis by auto
  next
    case mid: False
    show ?thesis
    proof (cases "t \<noteq> [] \<and> 10 < length t")
      case True
      then have "\<exists>rest. findall_AZ09 4 6 t = take 6 t # rest"
        using t by (intro findall_AZ09_all) auto
      with r mid True have "r = take 6 t" by auto
      with t True show ?thesis
        by (auto simp: list_all_iff dest: in_set_takeD)
    next
      case False
      with r mid have "r = t \<and> t \<noteq> []" by (auto split: if_splits)
      with mid False t show ?thesis by auto
    qed
  qed
qed

lemma clean_captcha_response_on_clean:
  assumes "r \<noteq> []" "list_all is_AZ09 r" "length r \<le> 10"
  shows "clean_captcha_response r = Some (take 8 r)"
proof (cases "3 \<le> length r")
  case True
  with assms have "\<exists>rest. findall_AZ09 3 8 r = take 8 r # rest"
    by (intro findall_AZ09_all) auto
  then obtain rest where f: "findall_AZ09 3 8 r = take 8 r # rest" ..
  from assms have cut: "list_all is_AZ09 (take 8 r)"
    by (auto simp: list_all_iff dest: in_set_takeD)
  from True have len: "take 8 r \<noteq> []" "3 \<le> length (take 8 r)" "length (take 8 r) \<le> 10"
    by auto
  show ?thesis
    using assms(1) len
    by (simp add: clean_captcha_response_def Let_def AZ09_text_fixed [OF assms(2)] f
        AZ09_text_fixed [OF cut])
next
  case False
  then have f: "findall_AZ09 3 8 r = []"
    by (simp add: findall_AZ09_short)
  from False have "take 8 r = r" by simp
  with False assms(1) show ?thesis
    by (simp add: clean_captcha_response_def Let_def AZ09_text_fixed [OF assms(2)] f)
qed

text \<open>
  C4 (as stated). The cleaner is not idempotent on its own output: step 3 keeps at most
  eight characters of the first run, while step 7 accepts up to ten. On the input
  \<^verbatim>\<open>"AB.CD.EF.GH.IJ"\<close> no run has three characters, so step 6 joins the five pairs into
  the ten characters \<^verbatim>\<open>"ABCDEFGHIJ"\<close>, which the cleaner returns; cleaning that result
  again returns \<^verbatim>\<open>"ABCDEFGH"\<close>.
\<close>

theorem clean_captcha_response_not_idempotent:
  "clean_captcha_response ''AB.CD.EF.GH.IJ'' = Some ''ABCDEFGHIJ''
   \<and> clean_captcha_response ''ABCDEFGHIJ'' = Some ''ABCDEFGH''
   \<and> clean_captcha_response ''ABCDEFGHIJ'' \<noteq> Some ''ABCDEFGHIJ''"
  by code_simp

text \<open>
  C4 (amended). Whenever the cleaner returns a text \<open>r\<close>, cleaning \<open>r\<close> again returns the
  first eight characters of \<open>r\<close>; so a result of at most eight characters passes through
  unchanged, and a result of nine or ten characters loses its tail.
\<close>

theorem clean_captcha_response_again:
  assumes "clean_captcha_response s = Some r"
  shows "clean_captcha_response r = Some (take 8 r)
         \<and> (length r \<le> 8 \<longrightarrow> clean_captcha_response r = Some r)"
proof -
  from assms have "r \<noteq> [] \<and> list_all is_AZ09 r \<and> length r \<le> 10"
    by (rule clean_captcha_response_range)
  then have "clean_captcha_response r = Some (take 8 r)"
    by (simp add: clean_captcha_response_on_clean)
  then show ?thesis by simp
qed

theorem clean_captcha_response_again_witness:
  "clean_captcha_response (''THE CAPTCHA IS: '' @ [CHR 0x27] @ ''xY12'' @ [CHR 0x27]) = Some ''XY12''
   \<and> clean_captcha_response ''XY12'' = Some ''XY12''"
proof -
  have h: "clean_captcha_response (''THE CAPTCHA IS: '' @ [CHR 0x27] @ ''xY12'' @ [CHR 0x27])
      = Some ''XY12''"
    by code_simp
  from clean_captcha_response_again [OF h] h show ?thesis by simp
qed

section \<open>The attempt loop of the solver\<close>

lemma captcha_attempt_cleaned:
  "captcha_attempt model prompts img i =
     (if accepted (cleaned_reply model prompts img i) then cleaned_reply model prompts img i else None)"
  by (simp add: captcha_attempt_def cleaned_reply_def Let_def accepted_def split: ai_reply.splits)

lemma captcha_attempt_None:
  "(captcha_attempt model prompts img i = None) = (\<not> accepted (cleaned_reply model prompts img i))"
  by (auto simp: captcha_attempt_cleaned accepted_def split: option.splits)

lemma attempts_loop_find:
  "attempts_loop model prompts img as =
     (case find (\<lambda>i. accepted (cleaned_reply model prompts img i)) as of
        Some k \<Rightarrow> (the (cleaned_reply model prompts img k),
                   map (\<lambda>i. i mod length prompts)
                     (takeWhile (\<lambda>i. \<not> accepted (cleaned_reply model prompts img i)) as @ [k]))
      | None \<Rightarrow> ([], map (\<lambda>i. i mod length prompts) as))"
proof (induction as)
  case Nil
  then show ?case by simp
next
  case (Cons a as)
  show ?case
  proof (cases "accepted (cleaned_reply model prompts img a)")
    case True
    then obtain t where "cleaned_reply model prompts img a = Some t"
      by (auto simp: accepted_def split: option.splits)
    with True show ?thesis
      by (simp add: captcha_attempt_cleaned)
  next
    case False
    then have "captcha_attempt model prompts img a = None"
      by (simp add: captcha_attempt_None)
    with False Cons show ?thesis
      by (simp split: option.splits prod.splits)
  qed
qed

lemma find_upt_first:
  "find P [m..<n] = Some k \<Longrightarrow> takeWhile (\<lambda>i. \<not> P i) [m..<n] @ [k] = [m..<Suc k]"
proof (induction "n - m" arbitrary: m)
  case 0
  then show ?case by simp
next
  case (Suc d)
  then have mn: "m < n" by simp
  then have split: "[m..<n] = m # [Suc m..<n]"
    by (simp add: upt_conv_Cons)
  show ?case
  proof (cases "P m")
    case True
    with Suc.prems split have "k = m" by simp
    with True split show ?thesis by simp
  next
    case False
    with Suc.prems split have f: "find P [Suc m..<n] = Some k" by simp
    from Suc.hyps(2) have "d = n - Suc m" by simp
    from Suc.hyps(1) [OF this f]
    have ih: "takeWhile (\<lambda>i. \<not> P i) [Suc m..<n] @ [k] = [Suc m..<Suc k]" .
    from f have "k \<in> set [Suc m..<n]"
      by (auto simp: find_Some_iff)
    then have "m < Suc k" by simp
    then have "[m..<Suc k] = m # [Suc m..<Suc k]"
      by (simp add: upt_conv_Cons)
    with False split ih show ?thesis by simp
  qed
qed

text \<open>
  C7. With a non-empty prompt list and a captcha image in hand, the solver makes attempts
  \<open>0, 1, \<dots>\<close> below \<open>max_retries\<close>, attempt \<open>i\<close> asking with prompt variant
  \<open>i mod (number of variants)\<close>. At the first attempt whose cleaned response has at least
  four characters and is alphanumeric it returns that response, having asked the model
  for attempts \<open>0\<close> to \<open>k\<close> only; when no attempt below \<open>max_retries\<close> gives such a
  response it has asked for every attempt and returns the empty string, its absent result.
\<close>

theorem solve_captcha_with_gemini_attempts:
  assumes "prompts \<noteq> []"
  shows "solve_captcha_with_gemini model prompts (Downloaded 200 (Inr img)) max_retries =
     (case find (\<lambda>i. accepted (cleaned_reply model prompts img i)) [0..<max_retries] of
        Some k \<Rightarrow> (the (cleaned_reply model prompts img k),
                   map (\<lambda>i. i mod length prompts) [0..<Suc k])
      | None \<Rightarrow> ([], map (\<lambda>i. i mod length prompts) [0..<max_retries]))"
proof (cases "find (\<lambda>i. accepted (cleaned_reply model prompts img i)) [0..<max_retries]")
  case None
  with assms show ?thesis
    by (simp add: solve_captcha_with_gemini_def attempts_loop_find)
next
  case (Some k)
  from find_upt_first [OF Some]
  have "takeWhile (\<lambda>i. \<not> accepted (cleaned_reply model prompts img i)) [0..<max_retries] @ [k]
      = [0..<Suc k]" .
  with Some assms show ?thesis
    by (simp add: solve_captcha_with_gemini_def attempts_loop_find)
qed

theorem solve_captcha_with_gemini_attempts_witness:
  "solve_captcha_with_gemini
      (\<lambda>i p img. if i = 0 then AiRaises else AiText ''the text is: xy12'')
      CAPTCHA_PROMPTS (Downloaded 200 (Inr ())) 3 = (''XY12'', [0, 1])
   \<and> solve_captcha_with_gemini (\<lambda>i p img. AiText ''AB1'')
      CAPTCHA_PROMPTS (Downloaded 200 (Inr ())) 6 = ([], [0, 1, 2, 3, 0, 1])"
proof -
  have p: "CAPTCHA_PROMPTS \<noteq> []"
    by (simp add: CAPTCHA_PROMPTS_def)
  have e1: "(case find (\<lambda>i. accepted (cleaned_reply
          (\<lambda>i p img. if i = 0 then AiRaises else AiText ''the text is: xy12'')
          CAPTCHA_PROMPTS () i)) [0..<3] of
        Some k \<Rightarrow> (the (cleaned_reply
          (\<lambda>i p img. if i = 0 then AiRaises else AiText ''the text is: xy12'')
          CAPTCHA_PROMPTS () k), map (\<lambda>i. i mod length CAPTCHA_PROMPTS) [0..<Suc k])
      | None \<Rightarrow> ([], map (\<lambda>i. i mod length CAPTCHA_PROMPTS) [0..<3])) = (''XY12'', [0, 1])"
    by code_simp
  have e2: "(case find (\<lambda>i. accepted (cleaned_reply (\<lambda>i p img. AiText ''AB1'')
          CAPTCHA_PROMPTS () i)) [0..<6] of
        Some k \<Rightarrow> (the (cleaned_reply (\<lambda>i p img. AiText ''AB1'')
          CAPTCHA_PROMPTS () k), map (\<lambda>i. i mod length CAPTCHA_PROMPTS) [0..<Suc k])
      | None \<Rightarrow> ([], map (\<lambda>i. i mod length CAPTCHA_PROMPTS) [0..<6])) = ([], [0, 1, 2, 3, 0, 1])"
    by code_simp
  show ?thesis
    using solve_captcha_with_gemini_attempts [OF p, of
        "\<lambda>i p img. if i = 0 then AiRaises else AiText ''the text is: xy12''" "()" 3]
      solve_captcha_with_gemini_attempts [OF p, of "\<lambda>i p img. AiText ''AB1''" "()" 6]
    by (simp only: e1 e2 simp_thms)
qed

section \<open>The two acquisition front-ends\<close>

lemma dropWhile_last:
  "dropWhile p xs \<noteq> [] \<Longrightarrow> last (dropWhile p xs) = last xs"
proof -
  assume a: "dropWhile p xs \<noteq> []"
  have "last xs = last (takeWhile p xs @ dropWhile p xs)" by simp
  also from a have "\<dots> = last (dropWhile p xs)" by (rule last_appendR)
  finally show ?thesis by simp
qed

lemma strip_with_idem: "strip_with p (strip_with p s) = strip_with p s"
proof -
  define u where "u = dropWhile p s"
  define v where "v = dropWhile p (rev u)"
  have front: "dropWhile p (rev v) = rev v"
  proof (cases "v = []")
    case True
    then show ?thesis by simp
  next
    case False
    then have "last v = last (rev u)"
      unfolding v_def by (rule dropWhile_last)
    moreover from False have ru: "rev u \<noteq> []"
      by (auto simp: v_def)
    ultimately have "last v = hd u"
      by (simp add: last_rev)
    moreover from ru have "\<not> p (hd u)"
      unfolding u_def using hd_dropWhile [of p s] by simp
    ultimately have "\<not> p (hd (rev v))"
      using False by (simp add: hd_rev)
    with False show ?thesis
      by (cases "rev v") auto
  qed
  have rear: "dropWhile p v = v"
    by (simp add: v_def)
  have "strip_with p s = rev v"
    by (simp add: strip_with_def u_def v_def)
  then show ?thesis
    by (simp add: strip_with_def [of p "rev v"] front rear)
qed

lemma strip_idem: "strip (strip s) = strip s"
  by (simp add: strip_def strip_with_idem)

lemma clean_captcha_response_blank: "strip s = [] \<Longrightarrow> clean_captcha_response s = None"
proof -
  assume blank: "strip s = []"
  have a: "strip_first_pattern unwanted_patterns [] = []"
    by (simp add: unwanted_patterns_def)
  have b: "strip_chars surrounding_punctuation [] = []"
    by (simp add: strip_chars_def strip_with_def)
  show ?thesis
    unfolding clean_captcha_response_def Let_def blank upper_def nfkd_def
    by (simp add: a b)
qed

lemma clean_captcha_response_strip:
  "clean_captcha_response (strip s) = clean_captcha_response s"
proof (cases "strip s = []")
  case True
  then show ?thesis
    by (simp add: clean_captcha_response_blank) (simp add: clean_captcha_response_def)
next
  case False
  then have "s \<noteq> []"
    by (auto simp: strip_def strip_with_def)
  with False show ?thesis
    by (simp add: clean_captcha_response_def strip_idem)
qed

lemma AZ09_isalnum: "list_all is_AZ09 r \<Longrightarrow> list_all isalnum_chr r"
  by (induction r) (auto simp: is_AZ09_def isalnum_chr_def)

lemma screenshot_is_normaliser:
  "solve_captcha_with_screenshot model prompt (Inr img) =
     (case model 0 prompt img of
        AiText text \<Rightarrow> clean_captcha_response text
      | AiNoText \<Rightarrow> None
      | AiRaises \<Rightarrow> None)"
proof (cases "model 0 prompt img")
  case (AiText t)
  show ?thesis
  proof (cases "clean_captcha_response t")
    case None
    with AiText show ?thesis
      by (simp add: solve_captcha_with_screenshot_def)
  next
    case (Some r)
    then have "r \<noteq> []"
      using clean_captcha_response_range by blast
    moreover from Some have "t \<noteq> []"
      by (auto simp: clean_captcha_response_def)
    ultimately show ?thesis
      using AiText Some by (simp add: solve_captcha_with_screenshot_def)
  qed
qed (simp_all add: solve_captcha_with_screenshot_def)

text \<open>
  C2 (amended). The two front-ends share the normaliser and nothing else of the downstream
  logic. The screenshot front-end asks the model once, with the first prompt, and returns
  whatever the normaliser makes of the answer: it applies neither the test of four
  alphanumeric characters nor any retry. The URL front-end applies both. The two return
  the same token when the model's answer to the first call, asked with the first prompt,
  cleans to a text of at least four characters (and at least one attempt is allowed).
\<close>

theorem front_ends_share_normaliser:
  "solve_captcha_with_screenshot model prompt (Inr img) =
     (case model 0 prompt img of
        AiText text \<Rightarrow> clean_captcha_response text
      | AiNoText \<Rightarrow> None
      | AiRaises \<Rightarrow> None)
   \<and> (prompts \<noteq> [] \<and> 0 < max_retries \<and> model 0 (prompts ! 0) img = AiText text
        \<and> clean_captcha_response text = Some r \<and> 4 \<le> length r \<longrightarrow>
      fst (solve_captcha_with_gemini model prompts (Downloaded 200 (Inr img)) max_retries) = r
      \<and> solve_captcha_with_screenshot model (prompts ! 0) (Inr img) = Some r)"
proof (intro conjI impI)
  show "solve_captcha_with_screenshot model prompt (Inr img) =
     (case model 0 prompt img of
        AiText text \<Rightarrow> clean_captcha_response text
      | AiNoText \<Rightarrow> None
      | AiRaises \<Rightarrow> None)"
    by (rule screenshot_is_normaliser)
next
  assume a: "prompts \<noteq> [] \<and> 0 < max_retries \<and> model 0 (prompts ! 0) img = AiText text
        \<and> clean_captcha_response text = Some r \<and> 4 \<le> length r"
  then have range: "r \<noteq> [] \<and> list_all is_AZ09 r \<and> length r \<le> 10"
    using clean_captcha_response_range by blast
  from a have nonempty: "text \<noteq> []"
    by (auto simp: clean_captcha_response_def)
  from a range have acc: "accepted (Some r)"
    by (simp add: accepted_def isalnum_def AZ09_isalnum)
  from a nonempty have "cleaned_reply model prompts img 0 = Some r"
    by (simp add: cleaned_reply_def clean_captcha_response_strip)
  with acc have "captcha_attempt model prompts img 0 = Some r"
    by (simp add: captcha_attempt_cleaned)
  moreover from a have "[0..<max_retries] = 0 # [1..<max_retries]"
    by (simp add: upt_conv_Cons)
  ultimately show
    "fst (solve_captcha_with_gemini model prompts (Downloaded 200 (Inr img)) max_retries) = r"
    using a by (simp add: solve_captcha_with_gemini_def)
  from a show "solve_captcha_with_screenshot model (prompts ! 0) (Inr img) = Some r"
    by (simp add: screenshot_is_normaliser)
qed

text \<open>
  C2 (as stated). Given the same answers of the model, the two front-ends return different
  results. When every answer is \<^verbatim>\<open>AB1\<close>, the URL front-end rejects the three characters
  at each of its three attempts and returns the empty string, while the screenshot
  front-end returns \<^verbatim>\<open>AB1\<close>. When the first call raises and the later ones answer
  \<^verbatim>\<open>xy12\<close>, the URL front-end returns \<^verbatim>\<open>XY12\<close> from its second attempt, while the
  screenshot front-end, which does not retry, returns \<^verbatim>\<open>None\<close>.
\<close>

theorem front_ends_differ:
  "fst (solve_captcha_with_gemini (\<lambda>i p img. AiText ''AB1'') CAPTCHA_PROMPTS
          (Downloaded 200 (Inr ())) 3) = []
   \<and> solve_captcha_with_screenshot (\<lambda>i p img. AiText ''AB1'') CAPTCHA_PROMPT (Inr ())
       = Some ''AB1''
   \<and> fst (solve_captcha_with_gemini (\<lambda>i p img. if i = 0 then AiRaises else AiText ''xy12'')
          CAPTCHA_PROMPTS (Downloaded 200 (Inr ())) 3) = ''XY12''
   \<and> solve_captcha_with_screenshot (\<lambda>i p img. if i = (0::nat) then AiRaises else AiText ''xy12'')
       CAPTCHA_PROMPT (Inr ()) = None"
  by code_simp

theorem front_ends_share_normaliser_witness:
  "fst (solve_captcha_with_gemini (\<lambda>i p img. AiText ''Answer: k7Qp2'') CAPTCHA_PROMPTS
          (Downloaded 200 (Inr ())) 3) = ''K7QP2''
   \<and> solve_captcha_with_screenshot (\<lambda>i p img. AiText ''Answer: k7Qp2'') (CAPTCHA_PROMPTS ! 0)
        (Inr ()) = Some ''K7QP2''"
proof -
  have h: "CAPTCHA_PROMPTS \<noteq> [] \<and> 0 < (3::nat)
      \<and> (\<lambda>i p img. AiText ''Answer: k7Qp2'') (0::nat) (CAPTCHA_PROMPTS ! 0) () = AiText ''Answer: k7Qp2''
      \<and> clean_captcha_response ''Answer: k7Qp2'' = Some ''K7QP2'' \<and> 4 \<le> length ''K7QP2''"
    by code_simp
  from front_ends_share_normaliser [of "\<lambda>i p img. AiText ''Answer: k7Qp2''" _ "()"
      CAPTCHA_PROMPTS 3 "''Answer: k7Qp2''" "''K7QP2''"] h
  show ?thesis by blast
qed

section \<open>The subject loop and the stored counts\<close>

lemma process_subject_counts:
  "process_subject b i st =
     (case subject_counts b i of
        None \<Rightarrow> st
      | Some (c, a) \<Rightarrow> st\<lparr>conducted_list := conducted_list st @ [c],
                           attended_list := attended_list st @ [a]\<rparr>)"
  by (simp add: process_subject_def subject_counts_def Let_def split: sum.splits option.splits)

lemma subjects_loop_lists:
  "fold (process_subject b) idxs st =
     st\<lparr>conducted_list := conducted_list st @ map fst (List.map_filter (subject_counts b) idxs),
        attended_list := attended_list st @ map snd (List.map_filter (subject_counts b) idxs)\<rparr>"
proof (induction idxs arbitrary: st)
  case Nil
  then show ?case by (simp add: List.map_filter_simps)
next
  case (Cons i idxs)
  have step: "fold (process_subject b) (i # idxs) st = fold (process_subject b) idxs (process_subject b i st)"
    by simp
  show ?case
  proof (cases "subject_counts b i")
    case None
    then have "process_subject b i st = st"
      by (simp add: process_subject_counts)
    with None show ?thesis
      unfolding step by (simp add: Cons List.map_filter_simps)
  next
    case (Some p)
    obtain c a where p: "p = (c, a)" by (cases p)
    with Some have "process_subject b i st =
        st\<lparr>conducted_list := conducted_list st @ [c], attended_list := attended_list st @ [a]\<rparr>"
      by (simp add: process_subject_counts)
    with Some p show ?thesis
      unfolding step by (simp add: Cons List.map_filter_simps)
  qed
qed

lemma extract_attendance_data_lists:
  "conducted_list (fst (extract_attendance_data b st)) =
      map fst (List.map_filter (subject_counts b) (subjects_processed b))"
  "attended_list (fst (extract_attendance_data b st)) =
      map snd (List.map_filter (subject_counts b) (subjects_processed b))"
proof -
  obtain plus_icons queried where f: "find_plus_icons (query_selector_all b) = (plus_icons, queried)"
    by (cases "find_plus_icons (query_selector_all b)")
  show "conducted_list (fst (extract_attendance_data b st)) =
      map fst (List.map_filter (subject_counts b) (subjects_processed b))"
    by (cases "page_ready b")
      (simp_all add: extract_attendance_data_def subjects_processed_def Let_def f
        subjects_loop_lists List.map_filter_simps del: upt_Suc)
  show "attended_list (fst (extract_attendance_data b st)) =
      map snd (List.map_filter (subject_counts b) (subjects_processed b))"
    by (cases "page_ready b")
      (simp_all add: extract_attendance_data_def subjects_processed_def Let_def f
        subjects_loop_lists List.map_filter_simps del: upt_Suc)
qed

lemma digit_value_nonneg: "isdigit_chr c \<Longrightarrow> 0 \<le> digit_value c"
  by (simp add: isdigit_chr_def digit_value_def Let_def)

lemma foldl_digits_nonneg:
  "list_all isdigit_chr s \<Longrightarrow> 0 \<le> acc \<Longrightarrow> 0 \<le> foldl (\<lambda>acc c. 10 * acc + digit_value c) acc s"
proof (induction s arbitrary: acc)
  case Nil
  then show ?case by simp
next
  case (Cons c s)
  from Cons.prems have "0 \<le> 10 * acc + digit_value c"
    using digit_value_nonneg [of c] by simp
  with Cons show ?case by simp
qed

lemma py_int_nonneg: "list_all isdigit_chr s \<Longrightarrow> py_int s = Inr n \<Longrightarrow> 0 \<le> n"
  using foldl_digits_nonneg [of s 0]
  by (auto simp: py_int_def int_of_digits_def split: if_splits)

lemma digit_runs_digits:
  "list_all isdigit_chr cur \<Longrightarrow> m \<in> set (digit_runs cur s) \<Longrightarrow> list_all isdigit_chr m"
proof (induction s arbitrary: cur)
  case Nil
  then show ?case by (auto split: if_splits)
next
  case (Cons c s)
  show ?case
  proof (cases "isdigit_chr c")
    case True
    with Cons.prems have "list_all isdigit_chr (cur @ [c])" "m \<in> set (digit_runs (cur @ [c]) s)"
      by simp_all
    then show ?thesis by (rule Cons.IH)
  next
    case False
    with Cons.prems have "m = cur \<or> m \<in> set (digit_runs [] s)"
      by (auto split: if_splits)
    then show ?thesis
    proof
      assume "m = cur"
      with Cons.prems show ?thesis by simp
    next
      assume "m \<in> set (digit_runs [] s)"
      with Cons.IH [of "[]"] show ?thesis by simp
    qed
  qed
qed

lemma total_count_nonneg: "total_count t = Inr (Some n) \<Longrightarrow> 0 \<le> n"
proof -
  assume a: "total_count t = Inr (Some n)"
  then obtain x part rest number more where
    "py_split ''Total-'' t = x # part # rest" "findall_digits part = number # more"
    "py_int number = Inr n"
    by (auto simp: total_count_def split: list.splits sum.splits)
  moreover from this have "list_all isdigit_chr number"
    using digit_runs_digits [of "[]" number part] by (simp add: findall_digits_def)
  ultimately show ?thesis
    using py_int_nonneg by blast
qed

lemma first_return_Some:
  "first_return body xs = Some r \<Longrightarrow> \<exists>x \<in> set xs. body x = Some r"
  by (induction xs) (auto split: option.splits)

lemma conducted_of_visible_range:
  "conducted_of_visible elem = Some n \<Longrightarrow> 1 \<le> n \<and> n \<le> 50"
  by (auto simp: conducted_of_visible_def split: sum.splits option.splits if_splits)

lemma conducted_fallback_nonneg: "conducted_fallback es = Some n \<Longrightarrow> 0 \<le> n"
  by (auto simp: conducted_fallback_def isdigit_def split: sum.splits option.splits if_splits
      dest: py_int_nonneg)

lemma extract_conducted_count_nonneg: "extract_conducted_count pg = Some n \<Longrightarrow> 0 \<le> n"
proof -
  assume a: "extract_conducted_count pg = Some n"
  then obtain es where es: "pg conducted_selector = Inr es"
    by (auto simp: extract_conducted_count_def split: sum.splits)
  show ?thesis
  proof (cases "first_return conducted_of_visible (rev es)")
    case None
    with a es have "conducted_fallback es = Some n"
      by (simp add: extract_conducted_count_def)
    then show ?thesis by (rule conducted_fallback_nonneg)
  next
    case (Some r)
    with a es have "first_return conducted_of_visible (rev es) = Some n"
      by (simp add: extract_conducted_count_def)
    from first_return_Some [OF this] obtain e where "conducted_of_visible e = Some n"
      by auto
    from conducted_of_visible_range [OF this] show ?thesis
      by simp
  qed
qed

lemma attended_of_visible_nonneg: "attended_of_visible elem = Some n \<Longrightarrow> 0 \<le> n"
  by (auto simp: attended_of_visible_def Let_def
      split: sum.splits option.splits if_splits dest: total_count_nonneg)

lemma attended_fallback_nonneg: "attended_fallback es = Some n \<Longrightarrow> 0 \<le> n"
  by (auto simp: attended_fallback_def split: sum.splits option.splits if_splits
      dest: total_count_nonneg)

lemma extract_attended_count_nonneg: "extract_attended_count pg = Some n \<Longrightarrow> 0 \<le> n"
proof -
  assume a: "extract_attended_count pg = Some n"
  then obtain es where es: "pg attended_selector = Inr es"
    by (auto simp: extract_attended_count_def split: sum.splits)
  show ?thesis
  proof (cases "first_return attended_of_visible (rev es)")
    case None
    with a es have "attended_fallback es = Some n"
      by (simp add: extract_attended_count_def)
    then show ?thesis by (rule attended_fallback_nonneg)
  next
    case (Some r)
    with a es have "first_return attended_of_visible (rev es) = Some n"
      by (simp add: extract_attended_count_def)
    from first_return_Some [OF this] obtain e where "attended_of_visible e = Some n"
      by auto
    then show ?thesis by (rule attended_of_visible_nonneg)
  qed
qed

lemma subject_counts_nonneg: "subject_counts b i = Some (c, a) \<Longrightarrow> 0 \<le> c \<and> 0 \<le> a"
  by (auto simp: subject_counts_def split: sum.splits option.splits
      dest: extract_conducted_count_nonneg extract_attended_count_nonneg)

lemma map_filter_all:
  "(\<And>x y. f x = Some y \<Longrightarrow> P y) \<Longrightarrow> list_all P (List.map_filter f xs)"
  by (induction xs) (auto simp: List.map_filter_simps split: option.splits)

lemma zip_fst_snd: "zip (map fst ps) (map snd ps) = ps"
  by (induction ps) auto

lemma three_subjects_run:
  "subjects_processed three_subjects = [1, 2, 3]"
  "subject_counts three_subjects 2 = None"
  "List.map_filter (subject_counts three_subjects) (subjects_processed three_subjects)
     = [(10, 8), (20, 15)]"
  "filter (\<lambda>i. subject_counts three_subjects i \<noteq> None) (subjects_processed three_subjects)
     = [1, 3]"
  by code_simp+

lemma three_subjects_lists:
  "conducted_list (fst (extract_attendance_data three_subjects fresh_checker)) = [10, 20]"
  "attended_list (fst (extract_attendance_data three_subjects fresh_checker)) = [8, 15]"
  by (simp_all add: extract_attendance_data_lists three_subjects_run(3))

text \<open>
  C10. After extraction the conducted list and the attended list have the same length,
  whatever the browser did and whatever the lists held before: zipped, they are the pairs
  of counts of the subjects for which both counts were extracted, in page order, so
  position \<open>i\<close> of each list belongs to the same subject.
\<close>

theorem lists_pairwise:
  "length (conducted_list (fst (extract_attendance_data b st)))
     = length (attended_list (fst (extract_attendance_data b st)))
   \<and> zip (conducted_list (fst (extract_attendance_data b st)))
         (attended_list (fst (extract_attendance_data b st)))
     = List.map_filter (subject_counts b) (subjects_processed b)"
  by (simp add: extract_attendance_data_lists zip_fst_snd)

theorem lists_pairwise_witness:
  "zip (conducted_list (fst (extract_attendance_data three_subjects
          \<lparr>conducted_list = [1, 2, 3], attended_list = [], subject_names = []\<rparr>)))
       (attended_list (fst (extract_attendance_data three_subjects
          \<lparr>conducted_list = [1, 2, 3], attended_list = [], subject_names = []\<rparr>)))
     = [(10, 8), (20, 15)]"
  using lists_pairwise [of three_subjects
      "\<lparr>conducted_list = [1, 2, 3], attended_list = [], subject_names = []\<rparr>"]
  by (simp only: three_subjects_run(3))

text \<open>
  C1 (as stated). A subject whose extraction fails is not kept. Of the three subjects of
  the sample page the second has no readable conducted count; after the run the lists
  hold two entries each, those of the first and the third subject, and nothing records
  the second.
\<close>

theorem failed_subject_dropped:
  "subjects_processed three_subjects = [1, 2, 3]
   \<and> subject_counts three_subjects 2 = None
   \<and> conducted_list (fst (extract_attendance_data three_subjects fresh_checker)) = [10, 20]
   \<and> attended_list (fst (extract_attendance_data three_subjects fresh_checker)) = [8, 15]"
  by (simp add: three_subjects_run three_subjects_lists)

text \<open>
  C1 (amended). A subject whose conducted or attended count cannot be extracted leaves
  both lists as they are: it is skipped, not stored with absent counts. After a run the
  lists hold the counts of exactly the subjects for which both were extracted, in page
  order, so there are as many entries as such subjects.
\<close>

theorem failed_subject_skipped:
  "(subject_counts b i = None \<longrightarrow> process_subject b i st = st)
   \<and> conducted_list (fst (extract_attendance_data b st))
       = map fst (List.map_filter (subject_counts b) (subjects_processed b))
   \<and> attended_list (fst (extract_attendance_data b st))
       = map snd (List.map_filter (subject_counts b) (subjects_processed b))
   \<and> length (conducted_list (fst (extract_attendance_data b st)))
       = length (filter (\<lambda>i. subject_counts b i \<noteq> None) (subjects_processed b))"
proof -
  have "length (List.map_filter f xs) = length (filter (\<lambda>i. f i \<noteq> None) xs)" for f :: "nat \<Rightarrow> (int \<times> int) option" and xs
    by (induction xs) (auto simp: List.map_filter_simps split: option.splits)
  then show ?thesis
    by (simp add: extract_attendance_data_lists process_subject_counts)
qed

theorem failed_subject_skipped_witness:
  "subject_counts three_subjects 2 = None
   \<and> process_subject three_subjects 2 fresh_checker = fresh_checker
   \<and> length (conducted_list (fst (extract_attendance_data three_subjects fresh_checker))) = 2"
proof -
  note skipped = failed_subject_skipped [of three_subjects 2 fresh_checker]
  have none: "subject_counts three_subjects 2 = None"
    by (rule three_subjects_run(2))
  with skipped have same: "process_subject three_subjects 2 fresh_checker = fresh_checker"
    by blast
  from skipped have "length (conducted_list (fst (extract_attendance_data three_subjects fresh_checker)))
      = length (filter (\<lambda>i. subject_counts three_subjects i \<noteq> None)
          (subjects_processed three_subjects))"
    by blast
  also have "\<dots> = 2"
    by (simp only: three_subjects_run(4)) simp
  finally show ?thesis
    using none same by blast
qed

lemma two_odd_subjects_run:
  "List.map_filter (subject_counts two_odd_subjects) (subjects_processed two_odd_subjects)
     = [(5, 9), (99, 3)]"
  by code_simp

text \<open>
  C5 (as stated). Extraction does not compare the two counts, and neither the fallback
  of the conducted count nor the \<^verbatim>\<open>Total-\<close> form of the attended count is checked
  against the range. On the sample page the first subject is stored with 9 classes
  attended of 5 conducted, and the second with 99 classes conducted, read from a hidden
  span.
\<close>

theorem counts_unordered_and_unbounded:
  "conducted_list (fst (extract_attendance_data two_odd_subjects fresh_checker)) = [5, 99]
   \<and> attended_list (fst (extract_attendance_data two_odd_subjects fresh_checker)) = [9, 3]
   \<and> \<not> (9 :: int) \<le> 5 \<and> \<not> (99 :: int) \<le> 50"
  by (simp add: extract_attendance_data_lists two_odd_subjects_run)

text \<open>
  C5 (amended). Every pair of counts stored by extraction is non-negative, and a conducted
  count that the scan of the visible elements returns lies between 1 and 50. Nothing
  bounds the attended count by the conducted count, and the fallback of the conducted
  count and the \<^verbatim>\<open>Total-\<close> form of the attended count have no upper bound.
\<close>

theorem counts_nonnegative:
  "list_all (\<lambda>(c, a). 0 \<le> a \<and> 0 \<le> c)
     (zip (conducted_list (fst (extract_attendance_data b st)))
          (attended_list (fst (extract_attendance_data b st))))
   \<and> (first_return conducted_of_visible es = Some n \<longrightarrow> 1 \<le> n \<and> n \<le> 50)"
proof
  have "list_all (\<lambda>(c, a). 0 \<le> a \<and> 0 \<le> c) (List.map_filter (subject_counts b) (subjects_processed b))"
    by (rule map_filter_all) (auto dest: subject_counts_nonneg)
  then show "list_all (\<lambda>(c, a). 0 \<le> a \<and> 0 \<le> c)
     (zip (conducted_list (fst (extract_attendance_data b st)))
          (attended_list (fst (extract_attendance_data b st))))"
    by (simp add: extract_attendance_data_lists zip_fst_snd)
  show "first_return conducted_of_visible es = Some n \<longrightarrow> 1 \<le> n \<and> n \<le> 50"
  proof
    assume "first_return conducted_of_visible es = Some n"
    from first_return_Some [OF this] obtain e where "conducted_of_visible e = Some n"
      by auto
    then show "1 \<le> n \<and> n \<le> 50"
      by (rule conducted_of_visible_range)
  qed
qed

theorem counts_nonnegative_witness:
  "zip (conducted_list (fst (extract_attendance_data two_odd_subjects fresh_checker)))
       (attended_list (fst (extract_attendance_data two_odd_subjects fresh_checker)))
     = [(5, 9), (99, 3)]
   \<and> list_all (\<lambda>(c, a). 0 \<le> a \<and> 0 \<le> c) [(5 :: int, 9 :: int), (99, 3)]
   \<and> first_return conducted_of_visible [hidden_span ''7'', visible_span ''12''] = Some 12
   \<and> (1 :: int) \<le> 12 \<and> (12 :: int) \<le> 50"
proof -
  have z: "zip (conducted_list (fst (extract_attendance_data two_odd_subjects fresh_checker)))
       (attended_list (fst (extract_attendance_data two_odd_subjects fresh_checker)))
     = [(5, 9), (99, 3)]"
    by (simp add: extract_attendance_data_lists two_odd_subjects_run)
  have f: "first_return conducted_of_visible [hidden_span ''7'', visible_span ''12''] = Some 12"
    by code_simp
  from counts_nonnegative [of two_odd_subjects fresh_checker
      "[hidden_span ''7'', visible_span ''12'']" 12] z f
  show ?thesis by simp
qed

section \<open>The cascade of locator strategies\<close>

lemma alternatives_loop_find:
  "alternatives_loop pg sels =
     (case find (returns_elements pg) sels of
        Some s \<Rightarrow> (try_query pg s, takeWhile (\<lambda>s. \<not> returns_elements pg s) sels @ [s])
      | None \<Rightarrow> ([], sels))"
proof (induction sels)
  case Nil
  then show ?case by simp
next
  case (Cons s sels)
  show ?case
  proof (cases "pg s")
    case (Inl e)
    with Cons show ?thesis
      by (simp add: returns_elements_def try_query_def split: option.splits)
  next
    case (Inr found)
    with Cons show ?thesis
      by (cases found) (simp_all add: returns_elements_def try_query_def split: option.splits)
  qed
qed

lemma find_plus_icons_cascade:
  "find_plus_icons pg =
     (case find (returns_elements pg) locator_strategies of
        Some s \<Rightarrow> (try_query pg s, takeWhile (\<lambda>s. \<not> returns_elements pg s) locator_strategies @ [s])
      | None \<Rightarrow> ([], locator_strategies))"
proof (cases "returns_elements pg PLUS_ICON_SELECTOR")
  case True
  then show ?thesis
    by (simp add: find_plus_icons_def locator_strategies_def returns_elements_def Let_def)
next
  case css: False
  show ?thesis
  proof (cases "returns_elements pg (''xpath='' @ PLUS_ICON_XPATH)")
    case True
    with css show ?thesis
      by (simp add: find_plus_icons_def locator_strategies_def returns_elements_def Let_def)
  next
    case False
    with css show ?thesis
      unfolding find_plus_icons_def locator_strategies_def Let_def alternatives_loop_find
      by (simp add: returns_elements_def split: option.splits)
  qed
qed

text \<open>
  C8. The plus icons are looked for with the CSS selector, then the XPath expression,
  then the alternative selectors in their order. The icons returned are those of the
  first of these strategies that finds at least one element on the page, a raising query
  counting as finding none; the strategies after it are not queried, and the answers of
  different strategies are never combined. When no strategy finds an element, every one
  has been queried and the result is empty; the run then only queries the generic
  clickable elements for its diagnostic log and ends with empty lists, processing no
  subject.
\<close>

theorem anchor_discovery_cascade:
  "find_plus_icons pg =
     (case find (returns_elements pg) locator_strategies of
        Some s \<Rightarrow> (try_query pg s, takeWhile (\<lambda>s. \<not> returns_elements pg s) locator_strategies @ [s])
      | None \<Rightarrow> ([], locator_strategies))
   \<and> (page_ready b = Inr () \<and> find (returns_elements (query_selector_all b)) locator_strategies = None
        \<longrightarrow> extract_attendance_data b st =
             (st\<lparr>conducted_list := [], attended_list := [], subject_names := names_found b\<rparr>,
              locator_strategies @ [clickable_selector]))"
proof (intro conjI impI)
  show "find_plus_icons pg =
     (case find (returns_elements pg) locator_strategies of
        Some s \<Rightarrow> (try_query pg s, takeWhile (\<lambda>s. \<not> returns_elements pg s) locator_strategies @ [s])
      | None \<Rightarrow> ([], locator_strategies))"
    by (rule find_plus_icons_cascade)
next
  assume "page_ready b = Inr () \<and> find (returns_elements (query_selector_all b)) locator_strategies = None"
  then show "extract_attendance_data b st =
      (st\<lparr>conducted_list := [], attended_list := [], subject_names := names_found b\<rparr>,
       locator_strategies @ [clickable_selector])"
    by (simp add: extract_attendance_data_def Let_def find_plus_icons_cascade)
qed

theorem anchor_discovery_cascade_witness:
  "find_plus_icons drifted_page =
     ([plus_icon, plus_icon],
      [PLUS_ICON_SELECTOR, ''xpath='' @ PLUS_ICON_XPATH, alternative_selectors ! 0,
       alternative_selectors ! 1, alternative_selectors ! 2])
   \<and> extract_attendance_data unrecognised
        \<lparr>conducted_list = [4], attended_list = [2], subject_names = [''OLD'']\<rparr>
      = (\<lparr>conducted_list = [], attended_list = [], subject_names = []\<rparr>,
         locator_strategies @ [clickable_selector])"
proof -
  have hit: "(case find (returns_elements drifted_page) locator_strategies of
        Some s \<Rightarrow> (try_query drifted_page s,
                   takeWhile (\<lambda>s. \<not> returns_elements drifted_page s) locator_strategies @ [s])
      | None \<Rightarrow> ([], locator_strategies))
     = ([plus_icon, plus_icon],
        [PLUS_ICON_SELECTOR, ''xpath='' @ PLUS_ICON_XPATH, alternative_selectors ! 0,
         alternative_selectors ! 1, alternative_selectors ! 2])"
    by code_simp
  have miss: "page_ready unrecognised = Inr ()
      \<and> find (returns_elements (query_selector_all unrecognised)) locator_strategies = None"
    by code_simp
  have names: "names_found unrecognised = []"
    by (simp add: unrecognised_def)
  from anchor_discovery_cascade [of drifted_page unrecognised
      "\<lparr>conducted_list = [4], attended_list = [2], subject_names = [''OLD'']\<rparr>"] hit miss names
  show ?thesis by simp
qed

section \<open>The fallback of the attended count\<close>

lemma split_from_pieces:
  "marker \<noteq> [] \<Longrightarrow>
     split_from marker cur s =
       (cur @ text_before_marker marker s)
         # (case text_after_marker marker s of
              None \<Rightarrow> []
            | Some after \<Rightarrow> split_from marker [] after)"
proof (induction s arbitrary: cur)
  case Nil
  then show ?case by simp
next
  case (Cons c s)
  show ?case
  proof (cases "prefix marker (c # s)")
    case True
    with Cons.prems show ?thesis by simp
  next
    case False
    with Cons.prems Cons.IH [of "cur @ [c]"] show ?thesis by simp
  qed
qed

lemma str_contains_after:
  "marker \<noteq> [] \<Longrightarrow> str_contains marker s = (text_after_marker marker s \<noteq> None)"
  by (induction s) auto

lemma digit_runs_skip:
  "list_all (\<lambda>c. \<not> isdigit_chr c) gap \<Longrightarrow> digit_runs [] (gap @ s) = digit_runs [] s"
  by (induction gap) simp_all

lemma digit_runs_first:
  "list_all isdigit_chr ds \<Longrightarrow> cur @ ds \<noteq> [] \<Longrightarrow> x = [] \<or> \<not> isdigit_chr (hd x) \<Longrightarrow>
     \<exists>more. digit_runs cur (ds @ x) = (cur @ ds) # more"
proof (induction ds arbitrary: cur)
  case Nil
  then show ?case by (cases x) auto
next
  case (Cons d ds)
  from Cons.prems have "list_all isdigit_chr ds" "(cur @ [d]) @ ds \<noteq> []" "isdigit_chr d"
    by simp_all
  with Cons.IH [of "cur @ [d]"] Cons.prems(3) show ?case by simp
qed

lemma findall_digits_none: "first_digit_run s = None \<Longrightarrow> findall_digits s = []"
proof -
  assume "first_digit_run s = None"
  then have "dropWhile (\<lambda>c. \<not> isdigit_chr c) s = []"
    by (simp add: first_digit_run_def split: list.splits)
  then have "list_all (\<lambda>c. \<not> isdigit_chr c) s"
    by (simp add: list_all_iff)
  with digit_runs_skip [of s "[]"] show ?thesis
    by (simp add: findall_digits_def)
qed

lemma findall_digits_first:
  "first_digit_run s = Some ds \<Longrightarrow> \<exists>more. findall_digits s = ds # more"
proof -
  assume a: "first_digit_run s = Some ds"
  define gap where "gap = takeWhile (\<lambda>c. \<not> isdigit_chr c) s"
  define r where "r = dropWhile (\<lambda>c. \<not> isdigit_chr c) s"
  define x where "x = dropWhile isdigit_chr r"
  have r: "r \<noteq> []" and ds: "ds = takeWhile isdigit_chr r"
  proof -
    from a obtain d rest where "r = d # rest"
      unfolding first_digit_run_def r_def by (cases "dropWhile (\<lambda>c. \<not> isdigit_chr c) s") simp_all
    then show "r \<noteq> []" by simp
    from a \<open>r = d # rest\<close> show "ds = takeWhile isdigit_chr r"
      unfolding first_digit_run_def r_def by (simp del: takeWhile.simps)
  qed
  from r have "isdigit_chr (hd r)"
    unfolding r_def using hd_dropWhile [of "\<lambda>c. \<not> isdigit_chr c" s] by simp
  with r ds have nonempty: "ds \<noteq> []"
    by (cases r) auto
  have digits: "list_all isdigit_chr ds"
    unfolding ds list_all_iff by (auto dest: set_takeWhileD)
  have stop: "x = [] \<or> \<not> isdigit_chr (hd x)"
    unfolding x_def using hd_dropWhile [of isdigit_chr r] by auto
  have gap: "list_all (\<lambda>c. \<not> isdigit_chr c) gap"
    unfolding gap_def list_all_iff by (auto dest: set_takeWhileD)
  have "s = gap @ ds @ x"
    by (simp add: gap_def ds x_def r_def)
  moreover from digit_runs_first [of ds "[]" x] digits nonempty stop
  obtain more where "digit_runs [] (ds @ x) = ds # more"
    by auto
  ultimately have "digit_runs [] s = ds # more"
    using digit_runs_skip [OF gap, of "ds @ x"] by simp
  then show ?thesis
    by (simp add: findall_digits_def)
qed

lemma total_count_spec:
  assumes "text_after_marker ''Total-'' t = Some after"
  shows "total_count t =
     (case first_digit_run (text_before_marker ''Total-'' after) of
        None \<Rightarrow> Inr None
      | Some ds \<Rightarrow> if length ds \<le> max_str_digits then Inr (Some (int_of_digits ds)) else Inl ValueError)"
proof -
  have pieces: "py_split ''Total-'' t =
      text_before_marker ''Total-'' t # text_before_marker ''Total-'' after
        # (case text_after_marker ''Total-'' after of
             None \<Rightarrow> []
           | Some further \<Rightarrow> split_from ''Total-'' [] further)"
    using assms split_from_pieces [of "''Total-''" "[]" t]
      split_from_pieces [of "''Total-''" "[]" after]
    by (simp add: py_split_def)
  show ?thesis
  proof (cases "first_digit_run (text_before_marker ''Total-'' after)")
    case None
    then have "findall_digits (text_before_marker ''Total-'' after) = []"
      by (rule findall_digits_none)
    with pieces None show ?thesis
      by (simp add: total_count_def)
  next
    case (Some ds)
    then obtain more where "findall_digits (text_before_marker ''Total-'' after) = ds # more"
      using findall_digits_first by blast
    with pieces Some show ?thesis
      by (simp add: total_count_def py_int_def)
  qed
qed

lemma attended_fallback_spec:
  "attended_fallback es =
     (if es = [] then None
      else
        (case text_content (last es) of
           Inl e \<Rightarrow> None
         | Inr None \<Rightarrow> None
         | Inr (Some t) \<Rightarrow>
             (case text_after_marker ''Total-'' t of
                None \<Rightarrow> None
              | Some after \<Rightarrow>
                  (case first_digit_run (text_before_marker ''Total-'' after) of
                     None \<Rightarrow> None
                   | Some ds \<Rightarrow>
                       if length ds \<le> max_str_digits then Some (int_of_digits ds) else None))))"
proof (cases "es = []")
  case True
  then show ?thesis by (simp add: attended_fallback_def)
next
  case nonempty: False
  show ?thesis
  proof (cases "text_content (last es)")
    case (Inl e)
    with nonempty show ?thesis by (simp add: attended_fallback_def)
  next
    case (Inr content)
    show ?thesis
    proof (cases content)
      case None
      with nonempty Inr show ?thesis by (simp add: attended_fallback_def)
    next
      case (Some t)
      have contains: "str_contains ''Total-'' t = (text_after_marker ''Total-'' t \<noteq> None)"
        by (rule str_contains_after) simp
      show ?thesis
      proof (cases "text_after_marker ''Total-'' t")
        case None
        with nonempty Inr Some contains show ?thesis
          by (simp add: attended_fallback_def)
      next
        case after: (Some u)
        then have "t \<noteq> []" by auto
        with nonempty Inr Some contains after total_count_spec [OF after] show ?thesis
          by (simp add: attended_fallback_def split: option.splits)
      qed
    qed
  qed
qed

text \<open>
  C3 (as stated). The fallback does not reparse the last element the way the scan does.
  When the only collected element is hidden and its text is \<^verbatim>\<open>7\<close>, the scan of the visible
  elements finds nothing, the text is a pure digit string in the range, the scan would
  return 7 for it if the element were visible, and the method returns \<^verbatim>\<open>None\<close>.
\<close>

theorem fallback_ignores_digit_text:
  "first_return attended_of_visible (rev [hidden_span ''7'']) = None
   \<and> isdigit ''7'' \<and> py_int ''7'' = Inr 7
   \<and> attended_of_visible (visible_span ''7'') = Some 7
   \<and> extract_attended_count (counts_page [] [hidden_span ''7'']) = None"
  by code_simp

text \<open>
  C3 (amended). When the scan of the visible elements returns nothing, the method returns
  what the fallback makes of the last collected element, and the fallback looks in its
  text, unstripped, for the marker \<^verbatim>\<open>Total-\<close> only. No element, no text or a text without
  the marker gives the absent result, also when the text is a pure digit string in the
  range. A text with the marker gives the number denoted by the first run of digits in
  the text after the first marker and before the next one, if there is a next one; the
  result is absent when that text has no digit or when the run has more than 4300 digits,
  which \<^verbatim>\<open>int\<close> refuses.
\<close>

theorem attended_fallback_marker_only:
  assumes "pg attended_selector = Inr es"
    and "first_return attended_of_visible (rev es) = None"
  shows "extract_attended_count pg =
     (if es = [] then None
      else
        (case text_content (last es) of
           Inl e \<Rightarrow> None
         | Inr None \<Rightarrow> None
         | Inr (Some t) \<Rightarrow>
             (case text_after_marker ''Total-'' t of
                None \<Rightarrow> None
              | Some after \<Rightarrow>
                  (case first_digit_run (text_before_marker ''Total-'' after) of
                     None \<Rightarrow> None
                   | Some ds \<Rightarrow>
                       if length ds \<le> max_str_digits then Some (int_of_digits ds) else None))))"
proof -
  from assms have "extract_attended_count pg = attended_fallback es"
    by (simp add: extract_attended_count_def)
  then show ?thesis
    by (simp only: attended_fallback_spec)
qed

theorem attended_fallback_marker_only_witness:
  "extract_attended_count (counts_page [] [visible_span ''n/a'', hidden_span ''P-12/E-1/L-0/MCR-0/R-0/Total-13 '']) = Some 13 \<and>
   extract_attended_count (counts_page [] [hidden_span ''ATT Total-5'']) = Some 5 \<and>
   extract_attended_count (counts_page [] [hidden_span ''Total-abc Total-5'']) = None \<and>
   extract_attended_count (counts_page [] [hidden_span ''Total-'']) = None \<and>
   extract_attended_count (counts_page [] [visible_span ''n/a'', hidden_span ''42'']) = None"
proof -
  have a: "extract_attended_count (counts_page [] [visible_span ''n/a'', hidden_span ''P-12/E-1/L-0/MCR-0/R-0/Total-13 '']) = Some 13"
  proof -
    have q: "counts_page [] [visible_span ''n/a'', hidden_span ''P-12/E-1/L-0/MCR-0/R-0/Total-13 ''] attended_selector = Inr [visible_span ''n/a'', hidden_span ''P-12/E-1/L-0/MCR-0/R-0/Total-13 '']"
      by (simp add: counts_page_def attended_selector_def conducted_selector_def)
    have n: "first_return attended_of_visible (rev [visible_span ''n/a'', hidden_span ''P-12/E-1/L-0/MCR-0/R-0/Total-13 '']) = None"
      by code_simp
    have v: "(if [visible_span ''n/a'', hidden_span ''P-12/E-1/L-0/MCR-0/R-0/Total-13 ''] = [] then None
      else
        (case text_content (last [visible_span ''n/a'', hidden_span ''P-12/E-1/L-0/MCR-0/R-0/Total-13 '']) of
           Inl e \<Rightarrow> None
         | Inr None \<Rightarrow> None
         | Inr (Some t) \<Rightarrow>
             (case text_after_marker ''Total-'' t of
                None \<Rightarrow> None
              | Some after \<Rightarrow>
                  (case first_digit_run (text_before_marker ''Total-'' after) of
                     None \<Rightarrow> None
                   | Some ds \<Rightarrow>
                       if length ds \<le> max_str_digits then Some (int_of_digits ds) else None))))
        = Some 13"
      by code_simp
    from attended_fallback_marker_only [where pg = "counts_page [] [visible_span ''n/a'', hidden_span ''P-12/E-1/L-0/MCR-0/R-0/Total-13 '']" and es = "[visible_span ''n/a'', hidden_span ''P-12/E-1/L-0/MCR-0/R-0/Total-13 '']", OF q n]
    show ?thesis
      by (simp only: v)
  qed
  have b: "extract_attended_count (counts_page [] [hidden_span ''ATT Total-5'']) = Some 5"
  proof -
    have q: "counts_page [] [hidden_span ''ATT Total-5''] attended_selector = Inr [hidden_span ''ATT Total-5'']"
      by (simp add: counts_page_def attended_selector_def conducted_selector_def)
    have n: "first_return attended_of_visible (rev [hidden_span ''ATT Total-5'']) = None"
      by code_simp
    have v: "(if [hidden_span ''ATT Total-5''] = [] then None
      else
        (case text_content (last [hidden_span ''ATT Total-5'']) of
           Inl e \<Rightarrow> None
         | Inr None \<Rightarrow> None
         | Inr (Some t) \<Rightarrow>
             (case text_after_marker ''Total-'' t of
                None \<Rightarrow> None
              | Some after \<Rightarrow>
                  (case first_digit_run (text_before_marker ''Total-'' after) of
                     None \<Rightarrow> None
                   | Some ds \<Rightarrow>
                       if length ds \<le> max_str_digits then Some (int_of_digits ds) else None))))
        = Some 5"
      by code_simp
    from attended_fallback_marker_only [where pg = "counts_page [] [hidden_span ''ATT Total-5'']" and es = "[hidden_span ''ATT Total-5'']", OF q n]
    show ?thesis
      by (simp only: v)
  qed
  have c: "extract_attended_count (counts_page [] [hidden_span ''Total-abc Total-5'']) = None"
  proof -
    have q: "counts_page [] [hidden_span ''Total-abc Total-5''] attended_selector = Inr [hidden_span ''Total-abc Total-5'']"
      by (simp add: counts_page_def attended_selector_def conducted_selector_def)
    have n: "first_return attended_of_visible (rev [hidden_span ''Total-abc Total-5'']) = None"
      by code_simp
    have v: "(if [hidden_span ''Total-abc Total-5''] = [] then None
      else
        (case text_content (last [hidden_span ''Total-abc Total-5'']) of
           Inl e \<Rightarrow> None
         | Inr None \<Rightarrow> None
         | Inr (Some t) \<Rightarrow>
             (case text_after_marker ''Total-'' t of
                None \<Rightarrow> None
              | Some after \<Rightarrow>
                  (case first_digit_run (text_before_marker ''Total-'' after) of
                     None \<Rightarrow> None
                   | Some ds \<Rightarrow>
                       if length ds \<le> max_str_digits then Some (int_of_digits ds) else None))))
        = None"
      by code_simp
    from attended_fallback_marker_only [where pg = "counts_page [] [hidden_span ''Total-abc Total-5'']" and es = "[hidden_span ''Total-abc Total-5'']", OF q n]
    show ?thesis
      by (simp only: v)
  qed
  have d: "extract_attended_count (counts_page [] [hidden_span ''Total-'']) = None"
  proof -
    have q: "counts_page [] [hidden_span ''Total-''] attended_selector = Inr [hidden_span ''Total-'']"
      by (simp add: counts_page_def attended_selector_def conducted_selector_def)
    have n: "first_return attended_of_visible (rev [hidden_span ''Total-'']) = None"
      by code_simp
    have v: "(if [hidden_span ''Total-''] = [] then None
      else
        (case text_content (last [hidden_span ''Total-'']) of
           Inl e \<Rightarrow> None
         | Inr None \<Rightarrow> None
         | Inr (Some t) \<Rightarrow>
             (case text_after_marker ''Total-'' t of
                None \<Rightarrow> None
              | Some after \<Rightarrow>
                  (case first_digit_run (text_before_marker ''Total-'' after) of
                     None \<Rightarrow> None
                   | Some ds \<Rightarrow>
                       if length ds \<le> max_str_digits then Some (int_of_digits ds) else None))))
        = None"
      by code_simp
    from attended_fallback_marker_only [where pg = "counts_page [] [hidden_span ''Total-'']" and es = "[hidden_span ''Total-'']", OF q n]
    show ?thesis
      by (simp only: v)
  qed
  have e: "extract_attended_count (counts_page [] [visible_span ''n/a'', hidden_span ''42'']) = None"
  proof -
    have q: "counts_page [] [visible_span ''n/a'', hidden_span ''42''] attended_selector = Inr [visible_span ''n/a'', hidden_span ''42'']"
      by (simp add: counts_page_def attended_selector_def conducted_selector_def)
    have n: "first_return attended_of_visible (rev [visible_span ''n/a'', hidden_span ''42'']) = None"
      by code_simp
    have v: "(if [visible_span ''n/a'', hidden_span ''42''] = [] then None
      else
        (case text_content (last [visible_span ''n/a'', hidden_span ''42'']) of
           Inl e \<Rightarrow> None
         | Inr None \<Rightarrow> None
         | Inr (Some t) \<Rightarrow>
             (case text_after_marker ''Total-'' t of
                None \<Rightarrow> None
              | Some after \<Rightarrow>
                  (case first_digit_run (text_before_marker ''Total-'' after) of
                     None \<Rightarrow> None
                   | Some ds \<Rightarrow>
                       if length ds \<le> max_str_digits then Some (int_of_digits ds) else None))))
        = None"
      by code_simp
    from attended_fallback_marker_only [where pg = "counts_page [] [visible_span ''n/a'', hidden_span ''42'']" and es = "[visible_span ''n/a'', hidden_span ''42'']", OF q n]
    show ?thesis
      by (simp only: v)
  qed
  from a b c d e show ?thesis by (intro conjI)
qed

section \<open>The aggregator on empty and zero totals\<close>













text \<open>The overflow of a division is reached: \<open>2 ^ n\<close> with \<open>n\<close> from 1024 on is too large
  for a float, and an attended count of that size makes both aggregators raise.\<close>

lemma bit_length_pow2: "bit_length (2 ^ n) = Suc n"
proof (induction n)
  case 0
  have "bit_length 0 = 0"
    by (subst bit_length.simps) simp
  then show ?case
    by (subst bit_length.simps) simp
next
  case (Suc n)
  have "bit_length (2 ^ Suc n) = Suc (bit_length (2 ^ n))"
    by (subst bit_length.simps) simp
  with Suc show ?case by simp
qed

lemma binade_pow2: "binade (2 ^ n) = int n"
proof -
  have q: "quotient_of ((2::rat) ^ n) = (2 ^ n, 1)"
    using quotient_of_int [of "2 ^ n"] by (simp add: Rat.of_int_def)
  have one: "bit_length 1 = Suc 0"
    using bit_length_pow2 [of 0] by simp
  have p: "pow2 (int n) = 2 ^ n"
    by (simp add: pow2_def)
  have "binade (2 ^ n) =
      (let k = int (Suc n) - int (Suc 0) in if pow2 k \<le> 2 ^ n then k else k - 1)"
    by (simp only: binade_def q prod.case bit_length_pow2 one)
  also have "int (Suc n) - int (Suc 0) = int n"
    by simp
  finally show ?thesis
    by (simp only: Let_def p) simp
qed

lemma round_half_even_of_int: "round_half_even (of_int k) = k"
  by (simp add: round_half_even_def)

lemma to_double_pow2:
  assumes "1024 \<le> n"
  shows "to_double (2 ^ n) = PosInf"
proof -
  from assms have n: "n = (n - 52) + 52"
    by simp
  have ulp: "pow2 (max (int n) (- 1022) - 52) = 2 ^ (n - 52)"
    using assms by (simp add: pow2_def nat_diff_distrib)
  have "(2::rat) ^ n = 2 ^ (n - 52) * 2 ^ 52"
    by (subst n) (simp only: power_add)
  then have quot: "(2::rat) ^ n / 2 ^ (n - 52) = of_int (2 ^ 52)"
    by simp
  have r: "of_int (round_half_even ((2::rat) ^ n / 2 ^ (n - 52))) * (2::rat) ^ (n - 52) = 2 ^ n"
    unfolding quot round_half_even_of_int using \<open>(2::rat) ^ n = 2 ^ (n - 52) * 2 ^ 52\<close>
    by simp
  have "pow2 1024 = 2 ^ 1024"
    unfolding pow2_def by (simp del: power_numeral)
  moreover from assms have "(2::rat) ^ 1024 \<le> 2 ^ n"
    by (rule power_increasing) simp
  ultimately have big: "pow2 1024 \<le> (2::rat) ^ n"
    by (simp only:)
  have pos: "(0::rat) < 2 ^ n" and nz: "(2::rat) ^ n \<noteq> 0" and ab: "\<bar>(2::rat) ^ n\<bar> = 2 ^ n"
    by simp_all
  show ?thesis
    by (simp only: to_double_def Let_def nz ab binade_pow2 ulp r big pos if_True if_False)
qed

lemma py_truediv_overflow:
  assumes "1024 \<le> n"
  shows "py_truediv (2 ^ n) 1 = Inl OverflowError"
proof -
  have "(of_int (2 ^ n) :: rat) / of_int 1 = 2 ^ n"
    by simp
  then show ?thesis
    by (simp add: py_truediv_def to_double_pow2 [OF assms])
qed

lemma overflow_leaves_aggregation:
  "prepare_results_for_web
       \<lparr>conducted_list = [1], attended_list = [2 ^ 1024], subject_names = []\<rparr>
     = Inl OverflowError
   \<and> calculate_and_display_results
       \<lparr>conducted_list = [1], attended_list = [2 ^ 1024], subject_names = []\<rparr>
     = Inl OverflowError"
proof -
  have "percentage_of (2 ^ 1024) 1 = Inl OverflowError"
    unfolding percentage_of_def using py_truediv_overflow [of 1024] by (simp del: power_numeral)
  then show ?thesis
    by (simp add: prepare_results_for_web_def calculate_and_display_results_def del: power_numeral)
qed




end
